theory Spec2Isabelle
  imports Complex_Main
begin

section \<open>Double DQN agent with frame-stacking replay: the embedding\<close>

text \<open>
  The development follows \<^verbatim>\<open>Double-DQN/ddqn_agent.py\<close>. Python integers are \<open>int\<close>,
  the elements of stored frames and scalars handed in by the caller are \<open>real\<close>, the
  elements of tensors are floating-point values with infinities and NaN, every exception
  the code can raise is a value of \<open>error\<close>, and the numbers delivered by the random source
  are explicit arguments.
\<close>

subsection \<open>Errors and arrays\<close>

datatype error = ZeroDivisionError | IndexError | ValueError | RuntimeError | TypeError

text \<open>
  A raw observation frame is an array with at least two axes, given as the list of its
  slices along axis 0; a slice is the list of its elements, so that its length stands for
  the shape of the remaining axes.
\<close>

type_synonym frame = "real list list"

text \<open>\<^verbatim>\<open>np.zeros_like\<close>: same shape, every element zero.\<close>

definition zeros_like :: "frame \<Rightarrow> frame" where
  "zeros_like f = map (map (\<lambda>_. 0)) f"

text \<open>
  \<^verbatim>\<open>np.concatenate(arrays, 0)\<close> and \<^verbatim>\<open>np.vstack\<close> on arrays of two or more axes: the
  arrays are joined along axis 0. An empty sequence of arrays and slices of different
  shapes raise \<^verbatim>\<open>ValueError\<close>; \<open>sh\<close> gives the shape of a slice.
\<close>

definition concatenate0 :: "('a \<Rightarrow> 'b) \<Rightarrow> 'a list list \<Rightarrow> error + 'a list" where
  "concatenate0 sh arrays =
     (if arrays = [] then Inl ValueError
      else if list_all (\<lambda>x. sh x = sh (hd (concat arrays))) (concat arrays)
        then Inr (concat arrays)
      else Inl ValueError)"

text \<open>\<^verbatim>\<open>np.vstack\<close> on scalars gives one column with a row for each scalar.\<close>

definition vstack_scalars :: "'a list \<Rightarrow> error + 'a list" where
  "vstack_scalars xs = (if xs = [] then Inl ValueError else Inr xs)"

subsection \<open>The replay buffer\<close>

text \<open>
  The named tuple \<^verbatim>\<open>Experience\<close>. The buffer stores raw frames in \<open>state\<close> and
  \<open>next_state\<close>; \<^verbatim>\<open>get_experiences\<close> reuses the tuple with encoded states there.
\<close>

record 's Experience =
  state :: 's
  action :: int
  reward :: real
  next_state :: 's
  "done" :: bool

record ReplayBuffer =
  rb_action_size :: int
  buffer_size :: nat
  memory :: "frame Experience list"
  batch_size :: int
  frame_history :: int

text \<open>\<^verbatim>\<open>deque(maxlen=buffer_size)\<close> rejects a negative bound.\<close>

definition ReplayBuffer_init :: "int \<Rightarrow> int \<Rightarrow> int \<Rightarrow> int \<Rightarrow> error + ReplayBuffer" where
  "ReplayBuffer_init action_size' buffer_size' batch_size' frame_history' =
     (if buffer_size' < 0 then Inl ValueError
      else Inr \<lparr>rb_action_size = action_size', buffer_size = nat buffer_size', memory = [],
                batch_size = batch_size', frame_history = frame_history'\<rparr>)"

text \<open>\<^verbatim>\<open>deque.append\<close> on a bounded deque: append on the right, then drop the leftmost
  element when the bound is exceeded.\<close>

definition deque_append :: "nat \<Rightarrow> 'a list \<Rightarrow> 'a \<Rightarrow> 'a list" where
  "deque_append maxlen xs x =
     (let ys = xs @ [x] in if length ys > maxlen then tl ys else ys)"

definition add :: "ReplayBuffer \<Rightarrow> frame \<Rightarrow> int \<Rightarrow> real \<Rightarrow> frame \<Rightarrow> bool \<Rightarrow> ReplayBuffer" where
  "add rb state' action' reward' next_state' done' =
     (let e = \<lparr>state = state', action = action', reward = reward',
                next_state = next_state', done = done'\<rparr>
      in rb\<lparr>memory := deque_append (buffer_size rb) (memory rb) e\<rparr>)"

text \<open>\<^verbatim>\<open>__len__\<close>.\<close>

definition len :: "ReplayBuffer \<Rightarrow> int" where
  "len rb = int (length (memory rb))"


subsection \<open>The frame-history encoder\<close>

text \<open>\<^verbatim>\<open>self.memory[idx % n]\<close>: the remainder by an empty store's length raises; otherwise
  the slot \<open>idx mod n\<close> lies inside the store.\<close>

definition slot :: "'a list \<Rightarrow> int \<Rightarrow> 'a" where
  "slot mem i = mem ! nat (i mod int (length mem))"

definition getitem_mod :: "'a list \<Rightarrow> int \<Rightarrow> error + 'a" where
  "getitem_mod mem i =
     (if length mem = 0 then Inl ZeroDivisionError else Inr (slot mem i))"

text \<open>The loop of lines 163--165 over \<^verbatim>\<open>range(start_idx, end_idx - 1)\<close>: the range is fixed
  when the loop starts, and \<open>start_idx\<close> is overwritten at every finished transition.\<close>

fun scan_done :: "frame Experience list \<Rightarrow> int list \<Rightarrow> int \<Rightarrow> error + int" where
  "scan_done mem [] start_idx = Inr start_idx"
| "scan_done mem (i # is) start_idx =
     (case getitem_mod mem i of
        Inl e \<Rightarrow> Inl e
      | Inr x \<Rightarrow> scan_done mem is (if done x then i + 1 else start_idx))"

text \<open>The list comprehension of line 171: \<^verbatim>\<open>self.memory[0]\<close> is read once for each
  zero frame.\<close>

definition zero_frames :: "frame Experience list \<Rightarrow> int \<Rightarrow> error + frame list" where
  "zero_frames mem missing_context =
     (if missing_context \<le> 0 then Inr []
      else if mem = [] then Inl IndexError
      else Inr (replicate (nat missing_context) (zeros_like (state (mem ! 0)))))"

text \<open>The loops of lines 172--173 and 175--176, appending to \<open>frames\<close>.\<close>

fun append_frames :: "frame Experience list \<Rightarrow> int list \<Rightarrow> frame list \<Rightarrow> error + frame list" where
  "append_frames mem [] frames = Inr frames"
| "append_frames mem (i # is) frames =
     (case getitem_mod mem i of
        Inl e \<Rightarrow> Inl e
      | Inr x \<Rightarrow> append_frames mem is (frames @ [state x]))"

text \<open>Lines 157--176: the list \<open>frames\<close> as it stands before line 178.\<close>

definition encode_frames :: "ReplayBuffer \<Rightarrow> int \<Rightarrow> error + frame list" where
  "encode_frames rb idx =
     (let end_idx = idx + 1;
          start_idx0 = end_idx - frame_history rb;
          mem = memory rb;
          start_idx1 = (if start_idx0 < 0 then 0 else start_idx0)
      in case scan_done mem [start_idx1 .. end_idx - 1 - 1] start_idx1 of
           Inl e \<Rightarrow> Inl e
         | Inr start_idx \<Rightarrow>
             (let missing_context = frame_history rb - (end_idx - start_idx)
              in if start_idx < 0 \<or> missing_context > 0
                 then (case zero_frames mem missing_context of
                         Inl e \<Rightarrow> Inl e
                       | Inr frames \<Rightarrow> append_frames mem [start_idx .. end_idx - 1] frames)
                 else append_frames mem [start_idx .. end_idx - 1] []))"

text \<open>Line 178: join the frames along axis 0, divide by 255, add a leading axis of
  length one.\<close>

definition normalize :: "frame \<Rightarrow> frame" where
  "normalize a = map (map (\<lambda>p. p / 255)) a"

definition encode_state :: "ReplayBuffer \<Rightarrow> int \<Rightarrow> error + frame list" where
  "encode_state rb idx =
     (case encode_frames rb idx of
        Inl e \<Rightarrow> Inl e
      | Inr frames \<Rightarrow>
          (case concatenate0 length frames of
             Inl e \<Rightarrow> Inl e
           | Inr a \<Rightarrow> Inr [normalize a]))"

text \<open>Stores whose frames all have \<open>c\<close> slices of \<open>k\<close> elements each: the frames of
  one environment.\<close>

definition frames_shaped :: "nat \<Rightarrow> nat \<Rightarrow> frame Experience list \<Rightarrow> bool" where
  "frames_shaped c k mem =
     list_all (\<lambda>e. length (state e) = c \<and> list_all (\<lambda>r. length r = k) (state e)) mem"

subsection \<open>Floating-point numbers\<close>

text \<open>
  A floating-point value is a finite number, an infinity or NaN. The two zeros of the
  format are one value here: they compare equal and differ in no result below.
\<close>

datatype fl = Fin real | PInf | NInf | NaN

text \<open>
  Rounding to a binary format with \<open>p\<close> fraction bits and exponents from \<open>emin\<close> to
  \<open>emax\<close>, to nearest with ties to even: \<open>binade n a\<close> is the exponent \<open>e\<close> with
  \<open>2^e \<le> a < 2^(e+1)\<close> (\<open>n\<close> bounds the search), the spacing of the format around \<open>a\<close> is
  \<open>2^(e - p)\<close>, with \<open>e\<close> not below \<open>emin\<close>, and a result of magnitude \<open>2^(emax+1)\<close> or more
  is an infinity.
\<close>

definition pow2 :: "int \<Rightarrow> real" where
  "pow2 e = (if 0 \<le> e then 2 ^ nat e else 1 / 2 ^ nat (- e))"

primrec binade :: "nat \<Rightarrow> real \<Rightarrow> int" where
  "binade 0 a = 0"
| "binade (Suc n) a =
     (if 2 \<le> a then binade n (a / 2) + 1
      else if a < 1 then binade n (2 * a) - 1
      else 0)"

definition round_even :: "real \<Rightarrow> int" where
  "round_even q =
     (let f = \<lfloor>q\<rfloor>
      in if q - of_int f < 1 / 2 then f
         else if 1 / 2 < q - of_int f then f + 1
         else if even f then f else f + 1)"

definition round_to :: "nat \<Rightarrow> int \<Rightarrow> int \<Rightarrow> real \<Rightarrow> fl" where
  "round_to p emin emax x =
     (if x = 0 then Fin 0
      else if pow2 (emax + 1) \<le> \<bar>x\<bar> then (if 0 < x then PInf else NInf)
      else
        (let e = max emin (binade (nat (emax - emin) + p + 2) \<bar>x\<bar>);
             u = pow2 (e - int p);
             r = of_int (round_even (\<bar>x\<bar> / u)) * u
         in if pow2 (emax + 1) \<le> r then (if 0 < x then PInf else NInf)
            else Fin (if 0 < x then r else - r)))"

text \<open>\<^verbatim>\<open>float32\<close>, the element type of the tensors, and Python's \<^verbatim>\<open>float\<close>.\<close>

definition float32 :: "real \<Rightarrow> fl" where
  "float32 = round_to 23 (- 126) 127"

definition float64 :: "real \<Rightarrow> fl" where
  "float64 = round_to 52 (- 1022) 1023"

text \<open>Conversion of a floating-point value to \<^verbatim>\<open>float32\<close>, and the values of that
  format.\<close>

definition to_float32 :: "fl \<Rightarrow> fl" where
  "to_float32 v = (case v of Fin x \<Rightarrow> float32 x | _ \<Rightarrow> v)"

definition is_float32 :: "fl \<Rightarrow> bool" where
  "is_float32 v \<longleftrightarrow> to_float32 v = v"

definition is_finite :: "fl \<Rightarrow> bool" where
  "is_finite v = (case v of Fin x \<Rightarrow> True | _ \<Rightarrow> False)"


fun fl_add :: "(real \<Rightarrow> fl) \<Rightarrow> fl \<Rightarrow> fl \<Rightarrow> fl" where
  "fl_add rnd (Fin x) (Fin y) = rnd (x + y)"
| "fl_add rnd NaN b = NaN"
| "fl_add rnd a NaN = NaN"
| "fl_add rnd PInf NInf = NaN"
| "fl_add rnd NInf PInf = NaN"
| "fl_add rnd PInf b = PInf"
| "fl_add rnd a PInf = PInf"
| "fl_add rnd NInf b = NInf"
| "fl_add rnd a NInf = NInf"


definition fl_signed_inf :: "bool \<Rightarrow> fl" where
  "fl_signed_inf positive = (if positive then PInf else NInf)"

fun fl_mul :: "(real \<Rightarrow> fl) \<Rightarrow> fl \<Rightarrow> fl \<Rightarrow> fl" where
  "fl_mul rnd (Fin x) (Fin y) = rnd (x * y)"
| "fl_mul rnd NaN b = NaN"
| "fl_mul rnd a NaN = NaN"
| "fl_mul rnd PInf (Fin y) = (if y = 0 then NaN else fl_signed_inf (0 < y))"
| "fl_mul rnd NInf (Fin y) = (if y = 0 then NaN else fl_signed_inf (y < 0))"
| "fl_mul rnd (Fin x) PInf = (if x = 0 then NaN else fl_signed_inf (0 < x))"
| "fl_mul rnd (Fin x) NInf = (if x = 0 then NaN else fl_signed_inf (x < 0))"
| "fl_mul rnd PInf PInf = PInf"
| "fl_mul rnd NInf NInf = PInf"
| "fl_mul rnd PInf NInf = NInf"
| "fl_mul rnd NInf PInf = NInf"

text \<open>The comparison \<open><\<close> of the format: false whenever NaN is involved.\<close>

fun fl_less :: "fl \<Rightarrow> fl \<Rightarrow> bool" where
  "fl_less (Fin x) (Fin y) = (x < y)"
| "fl_less NaN b = False"
| "fl_less a NaN = False"
| "fl_less a NInf = False"
| "fl_less PInf b = False"
| "fl_less NInf b = True"
| "fl_less a PInf = True"

subsection \<open>The random source\<close>

text \<open>
  The module \<^verbatim>\<open>random\<close> belongs to the standard library, not to this repository.
  Modelled from the library's documentation: the generator delivers natural numbers, and
  each function turns the numbers it is given into its result.
  \<^item> \<^verbatim>\<open>random.random()\<close> returns the next float in \<open>[0.0, 1.0)\<close>, a multiple of \<open>2^-53\<close>;
  \<^item> \<^verbatim>\<open>random.choice(seq)\<close> returns the element of \<open>seq\<close> at a generated position and
    raises \<^verbatim>\<open>IndexError\<close> on an empty sequence;
  \<^item> \<^verbatim>\<open>random.sample(population, k)\<close> raises \<^verbatim>\<open>ValueError\<close> when \<open>k\<close> is negative or
    larger than the population and otherwise returns \<open>k\<close> elements chosen without
    replacement: the \<open>i\<close>-th one is taken at a generated position from what the earlier
    choices have left.
\<close>

definition random_random :: "nat \<Rightarrow> real" where
  "random_random raw = real (raw mod 2 ^ 53) / 2 ^ 53"

definition random_choice :: "'a list \<Rightarrow> nat \<Rightarrow> error + 'a" where
  "random_choice seq raw =
     (if seq = [] then Inl IndexError else Inr (seq ! (raw mod length seq)))"

definition remove_nth :: "nat \<Rightarrow> 'a list \<Rightarrow> 'a list" where
  "remove_nth j xs = take j xs @ drop (Suc j) xs"

fun pick :: "'a list \<Rightarrow> nat list \<Rightarrow> 'a list" where
  "pick pool [] = []"
| "pick pool (raw # raws) =
     (if pool = [] then []
      else pool ! (raw mod length pool) # pick (remove_nth (raw mod length pool) pool) raws)"

definition random_sample :: "int \<Rightarrow> int \<Rightarrow> (nat \<Rightarrow> nat) \<Rightarrow> error + int list" where
  "random_sample n k raw =
     (if k < 0 \<or> n < k then Inl ValueError
      else Inr (pick [0 .. n - 1] (map raw [0 ..< nat k])))"

text \<open>
  The positions a generator can deliver for \<open>k\<close> choices from \<open>n\<close> elements: the \<open>i\<close>-th
  one lies below \<open>n - i\<close>. Each is equally likely, independently of the others.
\<close>

definition positions :: "nat \<Rightarrow> nat \<Rightarrow> nat list set" where
  "positions n k = {raws. length raws = k \<and> (\<forall>i < k. raws ! i < n - i)}"

subsection \<open>Sampling\<close>

text \<open>\<^verbatim>\<open>self.memory[idx]\<close> on the deque: a negative index counts from the right end, an
  index outside the deque raises.\<close>

definition getitem :: "'a list \<Rightarrow> int \<Rightarrow> error + 'a" where
  "getitem mem i =
     (if 0 \<le> i \<and> i < int (length mem) then Inr (mem ! nat i)
      else if i < 0 \<and> - int (length mem) \<le> i then Inr (mem ! nat (int (length mem) + i))
      else Inl IndexError)"

fun get_experiences :: "ReplayBuffer \<Rightarrow> int list \<Rightarrow> error + frame list Experience list" where
  "get_experiences rb [] = Inr []"
| "get_experiences rb (idx # experiences_idx) =
     (case encode_state rb idx of
        Inl e \<Rightarrow> Inl e
      | Inr state' \<Rightarrow>
     (case encode_state rb (idx + 1) of
        Inl e \<Rightarrow> Inl e
      | Inr next_state' \<Rightarrow>
     (case getitem (memory rb) idx of
        Inl e \<Rightarrow> Inl e
      | Inr m \<Rightarrow>
     (case get_experiences rb experiences_idx of
        Inl e \<Rightarrow> Inl e
      | Inr experiences \<Rightarrow>
          Inr (\<lparr>state = state', action = action m, reward = reward m,
                next_state = next_state', done = done m\<rparr> # experiences)))))"

text \<open>
  The conversions of lines 197--198. \<^verbatim>\<open>np.vstack\<close> of Python integers is an \<^verbatim>\<open>int64\<close>
  array when all of them fit that type; when one does not, the array has another type and
  \<^verbatim>\<open>torch.from_numpy\<close> raises \<^verbatim>\<open>TypeError\<close>. \<^verbatim>\<open>.float()\<close> rounds the rewards to
  \<^verbatim>\<open>float32\<close>.
\<close>

definition to_long :: "int list \<Rightarrow> error + int list" where
  "to_long xs =
     (if list_all (\<lambda>a. - (2 ^ 63) \<le> a \<and> a < 2 ^ 63) xs then Inr xs else Inl TypeError)"

text \<open>The five stacked tensors; \<^verbatim>\<open>astype(np.uint8)\<close> followed by \<^verbatim>\<open>float()\<close> turns a
  flag into 1 or 0. \<open>raw\<close> is the sequence of numbers that the generator delivers to
  \<^verbatim>\<open>random.sample\<close>.\<close>

type_synonym batch = "frame list \<times> int list \<times> fl list \<times> frame list \<times> fl list"

definition sample :: "ReplayBuffer \<Rightarrow> (nat \<Rightarrow> nat) \<Rightarrow> error + batch" where
  "sample rb raw =
     (case random_sample (int (length (memory rb))) (batch_size rb) raw of
        Inl e \<Rightarrow> Inl e
      | Inr experiences_idx \<Rightarrow>
     (case get_experiences rb experiences_idx of
        Inl e \<Rightarrow> Inl e
      | Inr experiences \<Rightarrow>
     (case concatenate0 (map length) (map state experiences) of
        Inl e \<Rightarrow> Inl e
      | Inr states \<Rightarrow>
     (case vstack_scalars (map action experiences) of
        Inl e \<Rightarrow> Inl e
      | Inr stacked_actions \<Rightarrow>
     (case to_long stacked_actions of
        Inl e \<Rightarrow> Inl e
      | Inr actions \<Rightarrow>
     (case vstack_scalars (map reward experiences) of
        Inl e \<Rightarrow> Inl e
      | Inr rewards \<Rightarrow>
     (case concatenate0 (map length) (map next_state experiences) of
        Inl e \<Rightarrow> Inl e
      | Inr next_states \<Rightarrow>
     (case vstack_scalars (map done experiences) of
        Inl e \<Rightarrow> Inl e
      | Inr dones \<Rightarrow>
          Inr (states, actions, map float32 rewards, next_states,
               map (\<lambda>d. if d then Fin 1 else Fin 0) dones)))))))))"

subsection \<open>The agent\<close>

definition BUFFER_SIZE :: int where "BUFFER_SIZE = 100000"
definition BATCH_SIZE :: int where "BATCH_SIZE = 32"
definition GAMMA :: real where "GAMMA = 99 / 100"
definition TAU :: real where "TAU = 1 / 1000"
definition UPDATE_EVERY :: int where "UPDATE_EVERY = 4"

text \<open>
  A tensor is a single element or the list of its slices along axis 0; the tensors of a
  network are regular (all slices of one shape) with \<^verbatim>\<open>float32\<close> elements. An axis of
  length 0 ends the shape: what would follow it is not recorded.
\<close>

datatype tensor = Scalar fl | Stack "tensor list"

fun shape :: "tensor \<Rightarrow> nat list" where
  "shape (Scalar x) = []"
| "shape (Stack []) = [0]"
| "shape (Stack (t # ts)) = Suc (length ts) # shape t"

fun regular :: "tensor \<Rightarrow> bool" where
  "regular (Scalar x) = True"
| "regular (Stack ts) = list_all (\<lambda>t. regular t \<and> shape t = shape (hd ts)) ts"

fun tensor_all :: "(fl \<Rightarrow> bool) \<Rightarrow> tensor \<Rightarrow> bool" where
  "tensor_all P (Scalar x) = P x"
| "tensor_all P (Stack ts) = list_all (tensor_all P) ts"

text \<open>
  A network is its list of parameter tensors and its training-mode flag (\<^verbatim>\<open>eval()\<close>
  clears it, \<^verbatim>\<open>train()\<close> sets it). The class \<^verbatim>\<open>QNetwork\<close> lives in \<^verbatim>\<open>model.py\<close>: its
  constructor and its forward pass are arguments of the functions that use them. A forward
  pass maps a batch of encoded states to one row of action values for each state.
\<close>

record QNetwork =
  parameters :: "tensor list"
  training :: bool

record Agent =
  action_size :: int
  qnetwork_local :: QNetwork
  qnetwork_target :: QNetwork
  replay :: ReplayBuffer
  t_step :: int

text \<open>\<^verbatim>\<open>Agent.__init__\<close>; \<open>replay\<close> is the attribute \<^verbatim>\<open>self.memory\<close>.\<close>

definition Agent_init :: "(int \<Rightarrow> int \<Rightarrow> int \<Rightarrow> QNetwork) \<Rightarrow> int \<Rightarrow> int \<Rightarrow> int \<Rightarrow> error + Agent" where
  "Agent_init new_network action_size' frame_history' seed =
     (case ReplayBuffer_init action_size' BUFFER_SIZE BATCH_SIZE frame_history' of
        Inl e \<Rightarrow> Inl e
      | Inr rb \<Rightarrow>
          Inr \<lparr>action_size = action_size',
               qnetwork_local = new_network action_size' frame_history' seed,
               qnetwork_target = new_network action_size' frame_history' seed,
               replay = rb, t_step = 0\<rparr>)"

text \<open>
  \<^verbatim>\<open>step\<close>. \<open>learn\<close> is the method \<^verbatim>\<open>self.learn\<close> acting on the agent, and \<open>drawn\<close> is
  what the generator delivers to \<^verbatim>\<open>random.sample\<close> should \<^verbatim>\<open>sample\<close> be called.
\<close>

definition step ::
  "(batch \<Rightarrow> real \<Rightarrow> Agent \<Rightarrow> error + Agent) \<Rightarrow> Agent \<Rightarrow>
   frame \<Rightarrow> int \<Rightarrow> real \<Rightarrow> frame \<Rightarrow> bool \<Rightarrow> (nat \<Rightarrow> nat) \<Rightarrow> error + Agent" where
  "step learn ag state' action' reward' next_state' done' drawn =
     (let ag1 = ag\<lparr>replay := add (replay ag) state' action' reward' next_state' done'\<rparr>;
          ag2 = ag1\<lparr>t_step := (t_step ag1 + 1) mod UPDATE_EVERY\<rparr>
      in if t_step ag2 = 0
         then if len (replay ag2) > BATCH_SIZE
              then (case sample (replay ag2) drawn of
                      Inl e \<Rightarrow> Inl e
                    | Inr experiences \<Rightarrow> learn experiences GAMMA ag2)
              else Inr ag2
         else Inr ag2)"

text \<open>A call of \<open>step\<close>: its five arguments and the numbers of the random source.
  \<open>record_only\<close> is what a call does to the agent when no learning step runs; \<open>run\<close> is a
  sequence of calls.\<close>

type_synonym call = "frame \<times> int \<times> real \<times> frame \<times> bool \<times> (nat \<Rightarrow> nat)"

definition record_only :: "Agent \<Rightarrow> call \<Rightarrow> Agent" where
  "record_only ag c =
     (case c of (state', action', reward', next_state', done', drawn) \<Rightarrow>
        ag\<lparr>replay := add (replay ag) state' action' reward' next_state' done',
           t_step := (t_step ag + 1) mod UPDATE_EVERY\<rparr>)"

fun run :: "(batch \<Rightarrow> real \<Rightarrow> Agent \<Rightarrow> error + Agent) \<Rightarrow> Agent \<Rightarrow> call list \<Rightarrow> error + Agent" where
  "run learn ag [] = Inr ag"
| "run learn ag (c # cs) =
     (case c of (state', action', reward', next_state', done', drawn) \<Rightarrow>
        (case step learn ag state' action' reward' next_state' done' drawn of
           Inl e \<Rightarrow> Inl e
         | Inr ag' \<Rightarrow> run learn ag' cs))"

text \<open>
  The index that \<^verbatim>\<open>np.argmax\<close> and \<^verbatim>\<open>torch.max\<close> along a dimension report: that of the
  first NaN when there is one, and otherwise the first index of the largest element.
\<close>

definition fl_maximum :: "fl list \<Rightarrow> fl" where
  "fl_maximum xs = fold (\<lambda>x m. if fl_less m x then x else m) (tl xs) (hd xs)"

definition first_max :: "fl list \<Rightarrow> nat" where
  "first_max xs =
     (if NaN \<in> set xs then length (takeWhile (\<lambda>x. x \<noteq> NaN) xs)
      else length (takeWhile (\<lambda>x. x \<noteq> fl_maximum xs) xs))"

definition np_argmax :: "fl list \<Rightarrow> error + int" where
  "np_argmax xs = (if xs = [] then Inl ValueError else Inr (int (first_max xs)))"

text \<open>
  \<^verbatim>\<open>act\<close>. \<open>raw_u\<close> is the number that the generator delivers to \<^verbatim>\<open>random.random\<close> and
  \<open>raw_c\<close> the one it delivers to \<^verbatim>\<open>random.choice\<close>. A forward pass is a call on a
  network object: it returns the action values and the network as the call leaves it. Its
  first argument is whether gradients are recorded: inside \<^verbatim>\<open>with torch.no_grad()\<close> they
  are not.
\<close>

definition greedy_action ::
  "(bool \<Rightarrow> QNetwork \<Rightarrow> frame list \<Rightarrow> fl list list \<times> QNetwork) \<Rightarrow> Agent \<Rightarrow> frame \<Rightarrow>
   error + (int \<times> Agent)" where
  "greedy_action forward ag state' =
     (let net_eval = (qnetwork_local ag)\<lparr>training := False\<rparr>;
          (action_values, net_after) = forward False net_eval [state'];
          net_train = net_after\<lparr>training := True\<rparr>
      in case np_argmax (concat action_values) of
           Inl e \<Rightarrow> Inl e
         | Inr a \<Rightarrow> Inr (a, ag\<lparr>qnetwork_local := net_train\<rparr>))"

definition random_action :: "Agent \<Rightarrow> nat \<Rightarrow> error + (int \<times> Agent)" where
  "random_action ag raw_c =
     (case random_choice [0 .. action_size ag - 1] raw_c of
        Inl e \<Rightarrow> Inl e
      | Inr a \<Rightarrow> Inr (a, ag))"

definition act ::
  "(bool \<Rightarrow> QNetwork \<Rightarrow> frame list \<Rightarrow> fl list list \<times> QNetwork) \<Rightarrow> Agent \<Rightarrow> frame \<Rightarrow> real \<Rightarrow>
   nat \<Rightarrow> nat \<Rightarrow> error + (int \<times> Agent)" where
  "act forward ag state' eps raw_u raw_c =
     (if random_random raw_u > eps then greedy_action forward ag state'
      else random_action ag raw_c)"





text \<open>
  \<^verbatim>\<open>soft_update\<close>. \<open>combine\<close> is an elementwise operation on two tensors with
  broadcasting: the shapes are aligned at their last axes, and an axis of length one is
  repeated. \<open>polyak\<close> is line 125 for one pair of tensors: \<^verbatim>\<open>1.0-tau\<close> is computed on
  Python floats, both scalars are converted to the element type, and the value
  \<^verbatim>\<open>tau*local + (1.0-tau)*target\<close> is copied into the target tensor, which fails unless
  the value has the target's shape. The loop runs over \<^verbatim>\<open>zip\<close> of the two parameter
  lists and leaves unpaired target parameters as they are. The function returns the
  target model after the update.
\<close>

fun collect :: "(error + 'a) list \<Rightarrow> error + 'a list" where
  "collect [] = Inr []"
| "collect (Inl e # rs) = Inl e"
| "collect (Inr x # rs) = (case collect rs of Inl e \<Rightarrow> Inl e | Inr xs \<Rightarrow> Inr (x # xs))"

definition stack :: "(error + tensor) list \<Rightarrow> error + tensor" where
  "stack rs = (case collect rs of Inl e \<Rightarrow> Inl e | Inr ts \<Rightarrow> Inr (Stack ts))"

fun tensor_map :: "(fl \<Rightarrow> fl) \<Rightarrow> tensor \<Rightarrow> tensor" where
  "tensor_map f (Scalar x) = Scalar (f x)"
| "tensor_map f (Stack ts) = Stack (map (tensor_map f) ts)"

function (sequential) combine :: "(fl \<Rightarrow> fl \<Rightarrow> fl) \<Rightarrow> tensor \<Rightarrow> tensor \<Rightarrow> error + tensor" where
  "combine f (Scalar x) (Scalar y) = Inr (Scalar (f x y))"
| "combine f (Scalar x) (Stack ys) = stack (map (\<lambda>y. combine f (Scalar x) y) ys)"
| "combine f (Stack xs) (Scalar y) = stack (map (\<lambda>x. combine f x (Scalar y)) xs)"
| "combine f (Stack xs) (Stack ys) =
     (if length (shape (Stack xs)) < length (shape (Stack ys))
        then stack (map (\<lambda>y. combine f (Stack xs) y) ys)
      else if length (shape (Stack ys)) < length (shape (Stack xs))
        then stack (map (\<lambda>x. combine f x (Stack ys)) xs)
      else if length xs = length ys
        then stack (map (\<lambda>(x, y). combine f x y) (zip xs ys))
      else if length xs = 1
        then stack (map (\<lambda>y. combine f (hd xs) y) ys)
      else if length ys = 1
        then stack (map (\<lambda>x. combine f x (hd ys)) xs)
      else Inl RuntimeError)"
  by pat_completeness auto

termination
proof (relation "measure (\<lambda>(f, a, b). size a + size b)")
  show "wf (measure (\<lambda>(f, a, b). size a + size b))"
    by simp
next
  fix f :: "fl \<Rightarrow> fl \<Rightarrow> fl" and x :: fl and ys :: "tensor list" and y :: tensor
  assume "y \<in> set ys"
  then have "size y < Suc (size_list size ys)"
    by (simp add: less_Suc_eq_le size_list_estimation')
  then show "((f, Scalar x, y), (f, Scalar x, Stack ys)) \<in> measure (\<lambda>(f, a, b). size a + size b)"
    by simp
next
  fix f :: "fl \<Rightarrow> fl \<Rightarrow> fl" and xs :: "tensor list" and y :: fl and x :: tensor
  assume "x \<in> set xs"
  then have "size x < Suc (size_list size xs)"
    by (simp add: less_Suc_eq_le size_list_estimation')
  then show "((f, x, Scalar y), (f, Stack xs, Scalar y)) \<in> measure (\<lambda>(f, a, b). size a + size b)"
    by simp
next
  fix f :: "fl \<Rightarrow> fl \<Rightarrow> fl" and xs ys :: "tensor list" and y :: tensor
  assume "y \<in> set ys"
  then have "size y < Suc (size_list size ys)"
    by (simp add: less_Suc_eq_le size_list_estimation')
  then show "((f, Stack xs, y), (f, Stack xs, Stack ys)) \<in> measure (\<lambda>(f, a, b). size a + size b)"
    by simp
next
  fix f :: "fl \<Rightarrow> fl \<Rightarrow> fl" and xs ys :: "tensor list" and x :: tensor
  assume "x \<in> set xs"
  then have "size x < Suc (size_list size xs)"
    by (simp add: less_Suc_eq_le size_list_estimation')
  then show "((f, x, Stack ys), (f, Stack xs, Stack ys)) \<in> measure (\<lambda>(f, a, b). size a + size b)"
    by simp
next
  fix f :: "fl \<Rightarrow> fl \<Rightarrow> fl" and xs ys :: "tensor list"
    and z :: "tensor \<times> tensor" and x y :: tensor
  assume "z \<in> set (zip xs ys)" and "(x, y) = z"
  then have "x \<in> set xs" "y \<in> set ys"
    by (auto dest: set_zip_leftD set_zip_rightD)
  then have "size x < Suc (size_list size xs)" "size y < Suc (size_list size ys)"
    by (simp_all add: less_Suc_eq_le size_list_estimation')
  then show "((f, x, y), (f, Stack xs, Stack ys)) \<in> measure (\<lambda>(f, a, b). size a + size b)"
    by simp
next
  fix f :: "fl \<Rightarrow> fl \<Rightarrow> fl" and xs ys :: "tensor list" and y :: tensor
  assume "length xs = 1" and "y \<in> set ys"
  then have "hd xs \<in> set xs" by (cases xs) simp_all
  then have "size (hd xs) < Suc (size_list size xs)"
    by (simp add: less_Suc_eq_le size_list_estimation')
  moreover have "size y < Suc (size_list size ys)"
    using \<open>y \<in> set ys\<close> by (simp add: less_Suc_eq_le size_list_estimation')
  ultimately show "((f, hd xs, y), (f, Stack xs, Stack ys)) \<in> measure (\<lambda>(f, a, b). size a + size b)"
    by simp
next
  fix f :: "fl \<Rightarrow> fl \<Rightarrow> fl" and xs ys :: "tensor list" and x :: tensor
  assume "length ys = 1" and "x \<in> set xs"
  then have "hd ys \<in> set ys" by (cases ys) simp_all
  then have "size (hd ys) < Suc (size_list size ys)"
    by (simp add: less_Suc_eq_le size_list_estimation')
  moreover have "size x < Suc (size_list size xs)"
    using \<open>x \<in> set xs\<close> by (simp add: less_Suc_eq_le size_list_estimation')
  ultimately show "((f, x, hd ys), (f, Stack xs, Stack ys)) \<in> measure (\<lambda>(f, a, b). size a + size b)"
    by simp
qed

text \<open>The elementwise combination of two tensors of one shape.\<close>

function (sequential) tensor_zip :: "(fl \<Rightarrow> fl \<Rightarrow> fl) \<Rightarrow> tensor \<Rightarrow> tensor \<Rightarrow> tensor" where
  "tensor_zip f (Scalar x) (Scalar y) = Scalar (f x y)"
| "tensor_zip f (Stack xs) (Stack ys) = Stack (map (\<lambda>(x, y). tensor_zip f x y) (zip xs ys))"
| "tensor_zip f a b = a"
  by pat_completeness auto

termination
proof (relation "measure (\<lambda>(f, a, b). size a)")
  show "wf (measure (\<lambda>(f, a, b). size a))"
    by simp
next
  fix f :: "fl \<Rightarrow> fl \<Rightarrow> fl" and xs ys :: "tensor list"
    and z :: "tensor \<times> tensor" and x y :: tensor
  assume "z \<in> set (zip xs ys)" and "(x, y) = z"
  then have "x \<in> set xs"
    by (auto dest: set_zip_leftD)
  then have "size x < Suc (size_list size xs)"
    by (simp add: less_Suc_eq_le size_list_estimation')
  then show "((f, x, y), (f, Stack xs, Stack ys)) \<in> measure (\<lambda>(f, a, b). size a)"
    by simp
qed

definition polyak :: "real \<Rightarrow> tensor \<Rightarrow> tensor \<Rightarrow> error + tensor" where
  "polyak tau local_param target_param =
     (case combine (fl_add float32)
             (tensor_map (fl_mul float32 (float32 tau)) local_param)
             (tensor_map (fl_mul float32 (to_float32 (float64 (1 - tau)))) target_param) of
        Inl e \<Rightarrow> Inl e
      | Inr v \<Rightarrow> if shape v = shape target_param then Inr v else Inl RuntimeError)"

fun soft_update_params :: "real \<Rightarrow> tensor list \<Rightarrow> tensor list \<Rightarrow> error + tensor list" where
  "soft_update_params tau (l # ls) (t # ts) =
     (case polyak tau l t of
        Inl e \<Rightarrow> Inl e
      | Inr t' \<Rightarrow>
          (case soft_update_params tau ls ts of
             Inl e \<Rightarrow> Inl e
           | Inr ts' \<Rightarrow> Inr (t' # ts')))"
| "soft_update_params tau [] ts = Inr ts"
| "soft_update_params tau ls [] = Inr []"

definition soft_update :: "QNetwork \<Rightarrow> QNetwork \<Rightarrow> real \<Rightarrow> error + QNetwork" where
  "soft_update local_model target_model tau =
     (case soft_update_params tau (parameters local_model) (parameters target_model) of
        Inl e \<Rightarrow> Inl e
      | Inr ps \<Rightarrow> Inr (target_model\<lparr>parameters := ps\<rparr>))"

subsection \<open>Example data\<close>

definition frameA :: frame where "frameA = [[10, 20]]"
definition frameB :: frame where "frameB = [[30, 40]]"
definition frameC :: frame where "frameC = [[51, 255]]"
definition frameN :: frame where "frameN = [[7, 8]]"

definition trA :: "frame Experience" where
  "trA = \<lparr>state = frameA, action = 0, reward = 1, next_state = frameB, done = False\<rparr>"
definition trB :: "frame Experience" where
  "trB = \<lparr>state = frameB, action = 1, reward = 0, next_state = frameC, done = True\<rparr>"
definition trC :: "frame Experience" where
  "trC = \<lparr>state = frameC, action = 0, reward = 2, next_state = frameN, done = False\<rparr>"

definition store :: "nat \<Rightarrow> int \<Rightarrow> int \<Rightarrow> frame Experience list \<Rightarrow> ReplayBuffer" where
  "store cap bsz h mem =
     \<lparr>rb_action_size = 2, buffer_size = cap, memory = mem, batch_size = bsz,
      frame_history = h\<rparr>"

definition exStore :: ReplayBuffer where
  "exStore = store 3 2 2 [trA\<lparr>reward := 1 / 5\<rparr>, trB, trC]"

definition netL :: QNetwork where
  "netL = \<lparr>parameters = [Stack [Scalar (Fin 1), Scalar (Fin 2)], Stack [Scalar (Fin 3)]],
           training = True\<rparr>"
definition netT :: QNetwork where
  "netT = \<lparr>parameters = [Stack [Scalar (Fin 5), Scalar (Fin 6)], Stack [Scalar (Fin 7)]],
           training = True\<rparr>"
definition netInf :: QNetwork where
  "netInf = \<lparr>parameters = [Stack [Scalar PInf, Scalar (Fin 6)], Stack [Scalar (Fin 7)]],
             training = True\<rparr>"


definition exNew :: "int \<Rightarrow> int \<Rightarrow> int \<Rightarrow> QNetwork" where
  "exNew a h seed = netL"

definition exAgent :: Agent where
  "exAgent = \<lparr>action_size = 2, qnetwork_local = netL, qnetwork_target = netL,
              replay = \<lparr>rb_action_size = 2, buffer_size = 100000, memory = [],
                        batch_size = 32, frame_history = 2\<rparr>,
              t_step = 0\<rparr>"

definition failing_learn :: "batch \<Rightarrow> real \<Rightarrow> Agent \<Rightarrow> error + Agent" where
  "failing_learn experiences gamma ag = Inl RuntimeError"

definition exRaw :: "nat \<Rightarrow> nat" where
  "exRaw i = (if i = 0 then 1 else 0)"

definition exRawLast :: "nat \<Rightarrow> nat" where
  "exRawLast i = (if i = 0 then 2 else 0)"

definition callA :: call where "callA = (frameA, 0, 1, frameB, False, exRaw)"
definition callB :: call where "callB = (frameB, 1, 0, frameC, True, exRaw)"
definition callC :: call where "callC = (frameC, 0, 2, frameN, False, exRaw)"

definition exForward :: "bool \<Rightarrow> QNetwork \<Rightarrow> frame list \<Rightarrow> fl list list \<times> QNetwork" where
  "exForward grad net xs = (map (\<lambda>x. [Fin 1, Fin 5]) xs, net)"

definition exAgentEval :: Agent where
  "exAgentEval = exAgent\<lparr>qnetwork_local := netL\<lparr>training := False\<rparr>\<rparr>"

section \<open>Floating-point facts\<close>

lemma float32_zero: "float32 0 = Fin 0"
  by (simp add: float32_def round_to_def)

lemma float32_one: "float32 1 = Fin 1"
  by (simp add: float32_def round_to_def pow2_def round_even_def eval_nat_numeral Let_def)

lemma float64_zero: "float64 0 = Fin 0"
  by (simp add: float64_def round_to_def)

lemma float64_one: "float64 1 = Fin 1"
  by (simp add: float64_def round_to_def pow2_def round_even_def eval_nat_numeral Let_def)

lemma float32_examples:
  "float32 (1 / 2) = Fin (1 / 2)" "float32 2 = Fin 2" "float32 3 = Fin 3" "float32 4 = Fin 4"
  "float32 5 = Fin 5" "float32 6 = Fin 6" "float32 7 = Fin 7" "float32 8 = Fin 8"
  "float32 (3 / 2) = Fin (3 / 2)" "float32 (5 / 2) = Fin (5 / 2)" "float32 (7 / 2) = Fin (7 / 2)"
  by (simp_all add: float32_def round_to_def pow2_def round_even_def eval_nat_numeral Let_def)

lemma float32_fifth: "float32 (1 / 5) = Fin (13421773 / 67108864)"
  by (simp add: float32_def round_to_def pow2_def round_even_def eval_nat_numeral Let_def)

lemma float64_half: "float64 (1 / 2) = Fin (1 / 2)"
  by (simp add: float64_def round_to_def pow2_def round_even_def eval_nat_numeral Let_def)


lemma fl_add_zero: "is_float32 v \<Longrightarrow> fl_add float32 v (Fin 0) = v"
  by (cases v) (simp_all add: is_float32_def to_float32_def)

lemma fl_zero_add: "is_float32 v \<Longrightarrow> fl_add float32 (Fin 0) v = v"
  by (cases v) (simp_all add: is_float32_def to_float32_def)


lemma fl_one_mul: "is_float32 v \<Longrightarrow> fl_mul float32 (Fin 1) v = v"
  by (cases v) (simp_all add: is_float32_def to_float32_def fl_signed_inf_def)

lemma fl_zero_mul: "is_finite v \<Longrightarrow> fl_mul float32 (Fin 0) v = Fin 0"
  by (cases v) (simp_all add: is_finite_def float32_zero)







section \<open>The circular store\<close>









section \<open>The frame-history encoder\<close>

lemma getitem_mod_slot: "mem \<noteq> [] \<Longrightarrow> getitem_mod mem i = Inr (slot mem i)"
  by (simp add: getitem_mod_def)

lemma scan_done_fold:
  "mem \<noteq> [] \<Longrightarrow>
   scan_done mem is s = Inr (fold (\<lambda>i s. if done (slot mem i) then i + 1 else s) is s)"
  by (induction "is" arbitrary: s) (simp_all add: getitem_mod_slot)

lemma fold_no_done:
  "\<forall>j \<in> set js. \<not> P j \<Longrightarrow> fold (\<lambda>i s. if P i then i + 1 else s) js (s::int) = s"
  by (induction js arbitrary: s) simp_all

lemma fold_last_done:
  "P b \<Longrightarrow> \<forall>j \<in> set js. \<not> P j \<Longrightarrow>
   fold (\<lambda>i s. if P i then i + 1 else s) (is @ b # js) (s::int) = b + 1"
  by (simp add: fold_no_done)

lemma fold_range:
  "fold (\<lambda>i s. if P i then i + 1 else s) is (s::int) \<in> insert s ((\<lambda>i. i + 1) ` set is)"
  by (induction "is" arbitrary: s) auto

lemma append_frames_map:
  "mem \<noteq> [] \<Longrightarrow>
   append_frames mem is frames = Inr (frames @ map (\<lambda>i. state (slot mem i)) is)"
  by (induction "is" arbitrary: frames) (simp_all add: getitem_mod_slot)

lemma zero_frames_replicate:
  "mem \<noteq> [] \<Longrightarrow>
   zero_frames mem missing = Inr (replicate (nat missing) (zeros_like (state (mem ! 0))))"
  by (simp add: zero_frames_def)

lemma encode_frames_start:
  assumes "memory rb \<noteq> []"
  shows "encode_frames rb idx =
     (let lo = (if idx + 1 - frame_history rb < 0 then 0 else idx + 1 - frame_history rb);
          start = fold (\<lambda>i s. if done (slot (memory rb) i) then i + 1 else s) [lo .. idx - 1] lo
      in Inr (replicate (nat (frame_history rb - (idx + 1 - start)))
                (zeros_like (state (memory rb ! 0)))
              @ map (\<lambda>i. state (slot (memory rb) i)) [start .. idx]))"
  using assms
  by (simp add: encode_frames_def Let_def scan_done_fold zero_frames_replicate append_frames_map)

lemma normalize_zeros_like: "normalize (zeros_like f) = zeros_like f"
  by (simp add: normalize_def zeros_like_def)

lemma normalize_append: "normalize (a @ b) = normalize a @ normalize b"
  by (simp add: normalize_def)

lemma normalize_concat: "normalize (concat fs) = concat (map normalize fs)"
  by (induction fs) (simp_all add: normalize_append, simp add: normalize_def)

lemma slot_in_set:
  assumes "mem \<noteq> []"
  shows "slot mem i \<in> set mem"
proof -
  have "0 < int (length mem)" using assms by simp
  then have "0 \<le> i mod int (length mem)" "i mod int (length mem) < int (length mem)"
    by simp_all
  then have "nat (i mod int (length mem)) < length mem"
    by (simp add: nat_less_iff)
  then show ?thesis
    unfolding slot_def by (rule nth_mem)
qed

lemma frames_shaped_slot:
  assumes "frames_shaped c k mem" and "mem \<noteq> []"
  shows "length (state (slot mem i)) = c" and "\<forall>r \<in> set (state (slot mem i)). length r = k"
  using assms slot_in_set [of mem i] by (auto simp: frames_shaped_def list_all_iff)

lemma frames_shaped_zero:
  assumes "frames_shaped c k mem" and "mem \<noteq> []"
  shows "length (zeros_like (state (mem ! 0))) = c"
    and "\<forall>r \<in> set (zeros_like (state (mem ! 0))). length r = k"
  using assms nth_mem [of 0 mem] by (auto simp: frames_shaped_def list_all_iff zeros_like_def)

lemma concatenate0_shaped:
  assumes "fs \<noteq> []" and "\<forall>f \<in> set fs. \<forall>r \<in> set f. length r = k"
  shows "concatenate0 length fs = Inr (concat fs)"
proof -
  have "length r = length (hd (concat fs))" if r: "r \<in> set (concat fs)" for r
  proof -
    from r have "concat fs \<noteq> []" by (metis list.set(1) empty_iff)
    then have "hd (concat fs) \<in> set (concat fs)" by (rule hd_in_set)
    then have "length (hd (concat fs)) = k" using assms(2) by auto
    moreover have "length r = k" using r assms(2) by auto
    ultimately show ?thesis by simp
  qed
  then show ?thesis
    using assms(1) by (simp add: concatenate0_def list_all_iff)
qed

lemma encode_state_shaped:
  assumes sh: "frames_shaped c k (memory rb)" and ne: "memory rb \<noteq> []"
    and fr: "encode_frames rb idx =
       Inr (replicate m (zeros_like (state (memory rb ! 0)))
            @ map (\<lambda>i. state (slot (memory rb) i)) is)"
    and pos: "0 < m + length is"
  shows "encode_state rb idx =
       Inr [concat (replicate m (zeros_like (state (memory rb ! 0))))
            @ concat (map (\<lambda>i. normalize (state (slot (memory rb) i))) is)]"
proof -
  let ?mem = "memory rb"
  let ?fs = "replicate m (zeros_like (state (?mem ! 0))) @ map (\<lambda>i. state (slot ?mem i)) is"
  have "?fs \<noteq> []" using pos by auto
  moreover have "\<forall>f \<in> set ?fs. \<forall>r \<in> set f. length r = k"
    using frames_shaped_zero(2) [OF sh ne] frames_shaped_slot(2) [OF sh ne] by auto
  ultimately have c: "concatenate0 length ?fs = Inr (concat ?fs)"
    by (rule concatenate0_shaped)
  have "normalize (concat ?fs) =
        concat (replicate m (zeros_like (state (?mem ! 0))))
        @ concat (map (\<lambda>i. normalize (state (slot ?mem i))) is)"
    by (simp add: normalize_append normalize_concat normalize_zeros_like comp_def)
  then show ?thesis
    by (simp add: encode_state_def fr c)
qed

text \<open>
  C2. Let \<open>b\<close> be the most recent finished transition strictly before \<open>idx\<close> inside the
  lookback window: \<open>b\<close> is a store index with \<open>idx - H + 1 \<le> b < idx\<close>, the transition in
  slot \<open>b mod n\<close> has \<open>done\<close> set, and none between \<open>b\<close> and \<open>idx\<close> has. Then the frames
  list of \<open>_encode_state(idx)\<close> is \<open>H - (idx - b)\<close> zero frames (one for every window position
  at or before \<open>b\<close>), each \<^verbatim>\<open>zeros_like\<close> the stored frame of slot 0, followed by the stored
  frames of \<open>b + 1, \<dots>, idx\<close>; on a store of equally shaped frames the returned array is
  their concatenation, the real frames divided by 255.
\<close>

theorem episode_boundary_isolation:
  assumes ne: "memory rb \<noteq> []"
    and lo: "0 \<le> b" "idx - frame_history rb + 1 \<le> b"
    and hi: "b < idx"
    and bd: "done (slot (memory rb) b)"
    and recent: "\<forall>j. b < j \<and> j < idx \<longrightarrow> \<not> done (slot (memory rb) j)"
  shows "encode_frames rb idx =
      Inr (replicate (nat (frame_history rb - (idx - b))) (zeros_like (state (memory rb ! 0)))
           @ map (\<lambda>i. state (slot (memory rb) i)) [b + 1 .. idx])
    \<and> (frames_shaped c k (memory rb) \<longrightarrow>
       encode_state rb idx =
         Inr [concat (replicate (nat (frame_history rb - (idx - b)))
                        (zeros_like (state (memory rb ! 0))))
              @ concat (map (\<lambda>i. normalize (state (slot (memory rb) i))) [b + 1 .. idx])])"
proof -
  let ?P = "\<lambda>i. done (slot (memory rb) i)"
  define l where "l = (if idx + 1 - frame_history rb < 0 then 0 else idx + 1 - frame_history rb)"
  have lb: "l \<le> b" using lo by (simp add: l_def)
  have split: "[l .. idx - 1] = [l .. b - 1] @ b # [b + 1 .. idx - 1]"
    using lb hi by (intro upto_split3) simp_all
  have "\<forall>j \<in> set [b + 1 .. idx - 1]. \<not> ?P j" using recent by simp
  then have st: "fold (\<lambda>i s. if ?P i then i + 1 else s) [l .. idx - 1] l = b + 1"
    unfolding split using bd by (rule fold_last_done [rotated])
  have fr: "encode_frames rb idx =
      Inr (replicate (nat (frame_history rb - (idx - b))) (zeros_like (state (memory rb ! 0)))
           @ map (\<lambda>i. state (slot (memory rb) i)) [b + 1 .. idx])"
  proof -
    have "encode_frames rb idx =
      (let lo = l;
           start = fold (\<lambda>i s. if ?P i then i + 1 else s) [lo .. idx - 1] lo
       in Inr (replicate (nat (frame_history rb - (idx + 1 - start)))
                 (zeros_like (state (memory rb ! 0)))
               @ map (\<lambda>i. state (slot (memory rb) i)) [start .. idx]))"
      unfolding l_def by (rule encode_frames_start [OF ne])
    then show ?thesis
      by (simp add: Let_def st)
  qed
  have pos: "0 < nat (frame_history rb - (idx - b)) + length [b + 1 .. idx]"
    using hi by simp
  show ?thesis
  proof (intro conjI impI)
    show "encode_frames rb idx =
      Inr (replicate (nat (frame_history rb - (idx - b))) (zeros_like (state (memory rb ! 0)))
           @ map (\<lambda>i. state (slot (memory rb) i)) [b + 1 .. idx])"
      by (rule fr)
  next
    assume sh: "frames_shaped c k (memory rb)"
    show "encode_state rb idx =
         Inr [concat (replicate (nat (frame_history rb - (idx - b)))
                        (zeros_like (state (memory rb ! 0))))
              @ concat (map (\<lambda>i. normalize (state (slot (memory rb) i))) [b + 1 .. idx])]"
      by (rule encode_state_shaped [OF sh ne fr pos])
  qed
qed

text \<open>The stored transitions \<open>[A, B (done), C]\<close> with \<open>H = 2\<close>, encoded at index 2: one zero
  frame, then the frame of \<open>C\<close>.\<close>

theorem episode_boundary_isolation_witness:
  "encode_frames (store 3 1 2 [trA, trB, trC]) 2 = Inr [[[0, 0]], frameC]
   \<and> encode_state (store 3 1 2 [trA, trB, trC]) 2 = Inr [[[0, 0], [1 / 5, 1]]]
   \<and> done (slot [trA, trB, trC] 1) \<and> \<not> done (slot [trA, trB, trC] 0)"
  using episode_boundary_isolation [of "store 3 1 2 [trA, trB, trC]" 1 2 1 2]
  by (simp add: store_def trA_def trB_def trC_def frameA_def frameB_def frameC_def slot_def
      frames_shaped_def zeros_like_def normalize_def)

lemma encode_frames_stack:
  assumes ne: "memory rb \<noteq> []" and idx: "0 \<le> idx" and h: "1 \<le> frame_history rb"
  shows "\<exists>start. 0 \<le> start \<and> idx + 1 - frame_history rb \<le> start \<and> start \<le> idx
     \<and> encode_frames rb idx =
         Inr (replicate (nat (frame_history rb - (idx + 1 - start)))
                (zeros_like (state (memory rb ! 0)))
              @ map (\<lambda>i. state (slot (memory rb) i)) [start .. idx])"
proof -
  let ?P = "\<lambda>i. done (slot (memory rb) i)"
  define l where "l = (if idx + 1 - frame_history rb < 0 then 0 else idx + 1 - frame_history rb)"
  define start where "start = fold (\<lambda>i s. if ?P i then i + 1 else s) [l .. idx - 1] l"
  have l: "0 \<le> l" "idx + 1 - frame_history rb \<le> l" "l \<le> idx"
    using idx h by (simp_all add: l_def)
  have "start \<in> insert l ((\<lambda>i. i + 1) ` set [l .. idx - 1])"
    unfolding start_def by (rule fold_range)
  then have s: "l \<le> start" "start \<le> idx"
    using l by auto
  have "encode_frames rb idx =
      Inr (replicate (nat (frame_history rb - (idx + 1 - start)))
             (zeros_like (state (memory rb ! 0)))
           @ map (\<lambda>i. state (slot (memory rb) i)) [start .. idx])"
    unfolding start_def l_def using encode_frames_start [OF ne, of idx] by (simp add: Let_def)
  then show ?thesis
    using s l by (intro exI [of _ start]) simp
qed

lemma fold_scan_upto:
  fixes P :: "int \<Rightarrow> bool"
  assumes "l - 1 \<le> h"
  shows "\<exists>r. fold (\<lambda>i s. if P i then i + 1 else s) [l .. h] l = r
     \<and> l \<le> r \<and> r \<le> h + 1
     \<and> (\<forall>j. r \<le> j \<and> j \<le> h \<longrightarrow> \<not> P j)
     \<and> (l < r \<longrightarrow> P (r - 1))"
  using assms
proof (induction h rule: int_ge_induct)
  case base
  have "fold (\<lambda>i s. if P i then i + 1 else s) [l .. l - 1] l = l"
    by simp
  moreover have "\<forall>j. l \<le> j \<and> j \<le> l - 1 \<longrightarrow> \<not> P j"
    by (intro allI impI) linarith
  ultimately show ?case
    by (intro exI [of _ l]) simp
next
  case (step h)
  then obtain r where r: "fold (\<lambda>i s. if P i then i + 1 else s) [l .. h] l = r"
    "l \<le> r" "r \<le> h + 1" "\<forall>j. r \<le> j \<and> j \<le> h \<longrightarrow> \<not> P j" "l < r \<longrightarrow> P (r - 1)"
    by blast
  have "[l .. h + 1] = [l .. h] @ [h + 1]"
    using step.hyps by (simp add: upto_rec2)
  then have f: "fold (\<lambda>i s. if P i then i + 1 else s) [l .. h + 1] l
      = (if P (h + 1) then h + 1 + 1 else r)"
    by (simp add: r(1))
  show ?case
  proof (cases "P (h + 1)")
    case True
    have a: "\<forall>j. h + 1 + 1 \<le> j \<and> j \<le> h + 1 \<longrightarrow> \<not> P j"
      by (intro allI impI) linarith
    have b: "l \<le> h + 1 + 1" using step.hyps by linarith
    have "h + 1 + 1 - 1 = h + 1" by simp
    then have c: "P (h + 1 + 1 - 1)" using True by (simp only:)
    have v: "fold (\<lambda>i s. if P i then i + 1 else s) [l .. h + 1] l = h + 1 + 1"
      using True by (simp only: f if_True)
    show ?thesis
      by (intro exI [of _ "h + 1 + 1"] conjI impI v a b c order_refl)
  next
    case False
    have v: "fold (\<lambda>i s. if P i then i + 1 else s) [l .. h + 1] l = r"
      using False by (simp only: f if_False)
    have a: "\<forall>j. r \<le> j \<and> j \<le> h + 1 \<longrightarrow> \<not> P j"
    proof (intro allI impI)
      fix j assume j: "r \<le> j \<and> j \<le> h + 1"
      show "\<not> P j"
      proof (cases "j = h + 1")
        case True
        then show ?thesis using False by simp
      next
        case False
        then have "j \<le> h" using j by linarith
        then show ?thesis using r(4) j by blast
      qed
    qed
    have b: "r \<le> h + 1 + 1" using r(3) by linarith
    show ?thesis
      using r(5) by (intro exI [of _ r] conjI v a b r(2)) 
  qed
qed

lemma encode_frames_stack_pinned:
  assumes ne: "memory rb \<noteq> []" and idx: "0 \<le> idx" and h: "1 \<le> frame_history rb"
  shows "\<exists>start. 0 \<le> start \<and> idx + 1 - frame_history rb \<le> start \<and> start \<le> idx
     \<and> (\<forall>j. start \<le> j \<and> j < idx \<longrightarrow> \<not> done (slot (memory rb) j))
     \<and> (0 < start \<and> idx + 1 - frame_history rb < start \<longrightarrow>
          done (slot (memory rb) (start - 1)))
     \<and> encode_frames rb idx =
         Inr (replicate (nat (frame_history rb - (idx + 1 - start)))
                (zeros_like (state (memory rb ! 0)))
              @ map (\<lambda>i. state (slot (memory rb) i)) [start .. idx])"
proof -
  let ?P = "\<lambda>i. done (slot (memory rb) i)"
  define l where "l = (if idx + 1 - frame_history rb < 0 then 0 else idx + 1 - frame_history rb)"
  have l: "0 \<le> l" "idx + 1 - frame_history rb \<le> l" "l \<le> idx"
    using idx h by (simp_all add: l_def)
  have "l - 1 \<le> idx - 1" using l by simp
  from fold_scan_upto [OF this, of ?P]
  obtain start where st: "fold (\<lambda>i s. if ?P i then i + 1 else s) [l .. idx - 1] l = start"
    and s: "l \<le> start" "start \<le> idx - 1 + 1"
    and after: "\<forall>j. start \<le> j \<and> j \<le> idx - 1 \<longrightarrow> \<not> ?P j"
    and before: "l < start \<longrightarrow> ?P (start - 1)"
    by blast
  have fr: "encode_frames rb idx =
      Inr (replicate (nat (frame_history rb - (idx + 1 - start)))
             (zeros_like (state (memory rb ! 0)))
           @ map (\<lambda>i. state (slot (memory rb) i)) [start .. idx])"
    using encode_frames_start [OF ne, of idx] st by (simp add: Let_def l_def)
  have a: "\<forall>j. start \<le> j \<and> j < idx \<longrightarrow> \<not> ?P j"
    using after by simp
  have b: "0 < start \<and> idx + 1 - frame_history rb < start \<longrightarrow> ?P (start - 1)"
  proof
    assume "0 < start \<and> idx + 1 - frame_history rb < start"
    then have "l < start" by (simp add: l_def)
    then show "?P (start - 1)" using before by blast
  qed
  have c: "0 \<le> start" "idx + 1 - frame_history rb \<le> start" "start \<le> idx"
    using s l by simp_all
  show ?thesis
    by (intro exI [of _ start] conjI c a b fr)
qed

text \<open>
  C4. On a non-empty store, for every index \<open>idx \<ge> 0\<close> and \<open>H \<ge> 1\<close>, the frames list of
  \<open>_encode_state(idx)\<close> has exactly \<open>H\<close> entries: the stored frames of \<open>start, \<dots>, idx\<close>,
  preceded by one zero frame (\<^verbatim>\<open>zeros_like\<close> the stored frame of slot 0) for every window
  position before \<open>start\<close>. Here \<open>start\<close> is where the valid history begins: no transition
  from \<open>start\<close> up to \<open>idx - 1\<close> is finished, and \<open>start\<close> is either the first index of the
  window, \<open>max 0 (idx - H + 1)\<close>, or the successor of a finished transition. On a store of
  equally shaped frames the call returns the concatenation; with one stored transition,
  \<open>idx = 0\<close> and \<open>H = 4\<close> the list is three zero frames and the stored frame.
\<close>

theorem encode_state_stack_length:
  assumes ne: "memory rb \<noteq> []" and idx: "0 \<le> idx" and h: "1 \<le> frame_history rb"
  shows "(\<exists>start. 0 \<le> start \<and> idx + 1 - frame_history rb \<le> start \<and> start \<le> idx
      \<and> (\<forall>j. start \<le> j \<and> j < idx \<longrightarrow> \<not> done (slot (memory rb) j))
      \<and> (0 < start \<and> idx + 1 - frame_history rb < start \<longrightarrow>
           done (slot (memory rb) (start - 1)))
      \<and> encode_frames rb idx =
          Inr (replicate (nat (frame_history rb - (idx + 1 - start)))
                 (zeros_like (state (memory rb ! 0)))
               @ map (\<lambda>i. state (slot (memory rb) i)) [start .. idx])
      \<and> length (replicate (nat (frame_history rb - (idx + 1 - start)))
                 (zeros_like (state (memory rb ! 0)))
               @ map (\<lambda>i. state (slot (memory rb) i)) [start .. idx]) = nat (frame_history rb)
      \<and> (frames_shaped c k (memory rb) \<longrightarrow>
           encode_state rb idx =
             Inr [concat (replicate (nat (frame_history rb - (idx + 1 - start)))
                            (zeros_like (state (memory rb ! 0))))
                  @ concat (map (\<lambda>i. normalize (state (slot (memory rb) i))) [start .. idx])]))
    \<and> (length (memory rb) = 1 \<and> idx = 0 \<and> frame_history rb = 4 \<longrightarrow>
         encode_frames rb idx =
           Inr [zeros_like (state (memory rb ! 0)), zeros_like (state (memory rb ! 0)),
                zeros_like (state (memory rb ! 0)), state (memory rb ! 0)])"
proof (intro conjI impI)
  obtain start where s: "0 \<le> start" "idx + 1 - frame_history rb \<le> start" "start \<le> idx"
    and a: "\<forall>j. start \<le> j \<and> j < idx \<longrightarrow> \<not> done (slot (memory rb) j)"
    and b: "0 < start \<and> idx + 1 - frame_history rb < start \<longrightarrow>
           done (slot (memory rb) (start - 1))"
    and fr: "encode_frames rb idx =
         Inr (replicate (nat (frame_history rb - (idx + 1 - start)))
                (zeros_like (state (memory rb ! 0)))
              @ map (\<lambda>i. state (slot (memory rb) i)) [start .. idx])"
    using encode_frames_stack_pinned [OF ne idx h] by blast
  have len: "length (replicate (nat (frame_history rb - (idx + 1 - start)))
                 (zeros_like (state (memory rb ! 0)))
               @ map (\<lambda>i. state (slot (memory rb) i)) [start .. idx]) = nat (frame_history rb)"
    using s h by simp
  have pos: "0 < nat (frame_history rb - (idx + 1 - start)) + length [start .. idx]"
    using s by simp
  have sh: "frames_shaped c k (memory rb) \<longrightarrow>
           encode_state rb idx =
             Inr [concat (replicate (nat (frame_history rb - (idx + 1 - start)))
                            (zeros_like (state (memory rb ! 0))))
                  @ concat (map (\<lambda>i. normalize (state (slot (memory rb) i))) [start .. idx])]"
    using encode_state_shaped [OF _ ne fr pos] by blast
  show "\<exists>start. 0 \<le> start \<and> idx + 1 - frame_history rb \<le> start \<and> start \<le> idx
      \<and> (\<forall>j. start \<le> j \<and> j < idx \<longrightarrow> \<not> done (slot (memory rb) j))
      \<and> (0 < start \<and> idx + 1 - frame_history rb < start \<longrightarrow>
           done (slot (memory rb) (start - 1)))
      \<and> encode_frames rb idx =
          Inr (replicate (nat (frame_history rb - (idx + 1 - start)))
                 (zeros_like (state (memory rb ! 0)))
               @ map (\<lambda>i. state (slot (memory rb) i)) [start .. idx])
      \<and> length (replicate (nat (frame_history rb - (idx + 1 - start)))
                 (zeros_like (state (memory rb ! 0)))
               @ map (\<lambda>i. state (slot (memory rb) i)) [start .. idx]) = nat (frame_history rb)
      \<and> (frames_shaped c k (memory rb) \<longrightarrow>
           encode_state rb idx =
             Inr [concat (replicate (nat (frame_history rb - (idx + 1 - start)))
                            (zeros_like (state (memory rb ! 0))))
                  @ concat (map (\<lambda>i. normalize (state (slot (memory rb) i))) [start .. idx])])"
    by (intro exI [of _ start] conjI s a b fr len sh)
next
  assume one: "length (memory rb) = 1 \<and> idx = 0 \<and> frame_history rb = 4"
  then have "encode_frames rb 0 =
      Inr (replicate 3 (zeros_like (state (memory rb ! 0)))
           @ [state (slot (memory rb) 0)])"
    using encode_frames_start [OF ne, of 0] by (simp add: Let_def)
  then show "encode_frames rb idx =
           Inr [zeros_like (state (memory rb ! 0)), zeros_like (state (memory rb ! 0)),
                zeros_like (state (memory rb ! 0)), state (memory rb ! 0)]"
    using one by (simp add: slot_def numeral_3_eq_3)
qed

theorem encode_state_stack_length_witness:
  "encode_frames (store 3 1 4 [trA]) 0 = Inr [[[0, 0]], [[0, 0]], [[0, 0]], frameA]
   \<and> encode_state (store 3 1 4 [trA]) 0 = Inr [[[0, 0], [0, 0], [0, 0], [2 / 51, 4 / 51]]]
   \<and> encode_frames (store 3 1 2 [trA, trB, trC]) 2 = Inr [[[0, 0]], frameC]
   \<and> done (slot (memory (store 3 1 2 [trA, trB, trC])) 1)"
proof -
  have a: "encode_frames (store 3 1 4 [trA]) 0 = Inr [[[0, 0]], [[0, 0]], [[0, 0]], frameA]
   \<and> encode_state (store 3 1 4 [trA]) 0 = Inr [[[0, 0], [0, 0], [0, 0], [2 / 51, 4 / 51]]]"
    using encode_state_stack_length [of "store 3 1 4 [trA]" 0 1 2]
    by (auto simp: store_def trA_def frameA_def slot_def frames_shaped_def zeros_like_def
        normalize_def numeral_3_eq_3)
  let ?rb = "store 3 1 2 [trA, trB, trC]"
  have d: "done (slot (memory ?rb) 1)" "\<not> done (slot (memory ?rb) 0)"
    by (simp_all add: store_def slot_def trA_def trB_def)
  have p: "memory ?rb \<noteq> []" "(0::int) \<le> 2" "1 \<le> frame_history ?rb"
    by (simp_all add: store_def)
  from encode_state_stack_length [OF p, of 1 2]
  obtain start where s: "0 \<le> start" "2 + 1 - frame_history ?rb \<le> start" "start \<le> 2"
    and n: "\<forall>j. start \<le> j \<and> j < 2 \<longrightarrow> \<not> done (slot (memory ?rb) j)"
    and fr: "encode_frames ?rb 2 =
          Inr (replicate (nat (frame_history ?rb - (2 + 1 - start)))
                 (zeros_like (state (memory ?rb ! 0)))
               @ map (\<lambda>i. state (slot (memory ?rb) i)) [start .. 2])"
    by blast
  have "start \<noteq> 1" using n d(1) by auto
  moreover have "1 \<le> start" using s(2) by (simp add: store_def)
  ultimately have "start = 2" using s(3) by linarith
  then have "encode_frames ?rb 2 = Inr [[[0, 0]], frameC]"
    using fr by (simp add: store_def slot_def trA_def trC_def frameA_def zeros_like_def)
  then show ?thesis
    using a d by blast
qed


section \<open>Sampling a batch\<close>

lemma map_length_replicate:
  "length xs = c \<Longrightarrow> \<forall>r \<in> set xs. length r = k \<Longrightarrow> map length xs = replicate c k"
  by (induction xs arbitrary: c) auto

lemma encode_state_total:
  assumes sh: "frames_shaped c k (memory rb)" and ne: "memory rb \<noteq> []"
    and idx: "0 \<le> idx" and h: "1 \<le> frame_history rb"
  shows "\<exists>a. encode_state rb idx = Inr [a] \<and> map length a = replicate (nat (frame_history rb) * c) k"
proof -
  let ?Z = "zeros_like (state (memory rb ! 0))"
  obtain start where s: "0 \<le> start" "idx + 1 - frame_history rb \<le> start" "start \<le> idx"
    and fr: "encode_frames rb idx =
         Inr (replicate (nat (frame_history rb - (idx + 1 - start))) ?Z
              @ map (\<lambda>i. state (slot (memory rb) i)) [start .. idx])"
    using encode_frames_stack [OF ne idx h] by blast
  let ?m = "nat (frame_history rb - (idx + 1 - start))"
  let ?a = "concat (replicate ?m ?Z)
            @ concat (map (\<lambda>i. normalize (state (slot (memory rb) i))) [start .. idx])"
  have pos: "0 < ?m + length [start .. idx]"
    using s by simp
  have e: "encode_state rb idx = Inr [?a]"
    by (rule encode_state_shaped [OF sh ne fr pos])
  have z: "map length ?Z = replicate c k"
    using frames_shaped_zero [OF sh ne] by (rule map_length_replicate)
  have n: "map length (normalize (state (slot (memory rb) i))) = replicate c k" for i
  proof -
    have "map length (normalize (state (slot (memory rb) i)))
        = map length (state (slot (memory rb) i))"
      by (simp add: normalize_def comp_def)
    also have "\<dots> = replicate c k"
      using frames_shaped_slot [OF sh ne, of i] by (rule map_length_replicate)
    finally show ?thesis .
  qed
  have rep: "concat (replicate j (replicate c k)) = replicate (j * c) k" for j
    by (induction j) (simp_all add: replicate_add)
  have cm: "concat (map (\<lambda>i. replicate c k) js) = replicate (length js * c) k" for js :: "int list"
    by (induction js) (simp_all add: replicate_add)
  have "map length ?a = replicate (?m * c) k @ replicate (length [start .. idx] * c) k"
    by (simp add: map_concat comp_def z n rep cm)
  also have "\<dots> = replicate ((?m + length [start .. idx]) * c) k"
    by (simp add: replicate_add [symmetric] add_mult_distrib)
  also have "?m + length [start .. idx] = nat (frame_history rb)"
    using s h by simp
  finally show ?thesis
    using e by blast
qed

lemma getitem_in_range:
  "0 \<le> i \<Longrightarrow> i < int (length mem) \<Longrightarrow> getitem mem i = Inr (mem ! nat i)"
  by (simp add: getitem_def Let_def)

lemma get_experiences_map:
  assumes enc: "\<forall>i. 0 \<le> i \<longrightarrow> encode_state rb i = Inr [E i]"
    and rng: "list_all (\<lambda>i. 0 \<le> i \<and> i < int (length (memory rb))) drawn"
  shows "get_experiences rb drawn =
     Inr (map (\<lambda>i. \<lparr>state = [E i], action = action (memory rb ! nat i),
                      reward = reward (memory rb ! nat i), next_state = [E (i + 1)],
                      done = done (memory rb ! nat i)\<rparr>) drawn)"
  using rng
proof (induction drawn)
  case Nil
  then show ?case by simp
next
  case (Cons i drawn)
  then have i: "0 \<le> i" "i < int (length (memory rb))" by simp_all
  then have "encode_state rb i = Inr [E i]" "encode_state rb (i + 1) = Inr [E (i + 1)]"
    using enc by simp_all
  then show ?case
    using Cons i by (simp add: getitem_in_range)
qed

lemma vstack_encoded:
  assumes "drawn \<noteq> []" and "\<forall>i \<in> set drawn. map length (F i) = s"
  shows "concatenate0 (map length) (map (\<lambda>i. [F i]) drawn) = Inr (map F drawn)"
proof -
  have c: "concat (map (\<lambda>i. [F i]) drawn) = map F drawn"
    by (induction drawn) simp_all
  have "hd (map F drawn) \<in> set (map F drawn)"
    using assms(1) by (intro hd_in_set) simp
  then have "map length (hd (map F drawn)) = s"
    using assms(2) by auto
  then have "list_all (\<lambda>x. map length x = map length (hd (map F drawn))) (map F drawn)"
    using assms(2) by (simp add: list_all_iff)
  then show ?thesis
    using assms(1) by (simp add: concatenate0_def c)
qed

lemma length_remove_nth: "j < length xs \<Longrightarrow> length (remove_nth j xs) = length xs - 1"
  by (simp add: remove_nth_def)

lemma set_remove_nth_subset: "set (remove_nth j xs) \<subseteq> set xs"
  by (auto simp: remove_nth_def dest: in_set_takeD in_set_dropD)

lemma distinct_remove_nth: "distinct xs \<Longrightarrow> distinct (remove_nth j xs)"
  by (simp add: remove_nth_def set_take_disj_set_drop_if_distinct)

lemma set_remove_nth:
  assumes "distinct xs" and "j < length xs"
  shows "set (remove_nth j xs) = set xs - {xs ! j}"
proof -
  have xs: "xs = take j xs @ xs ! j # drop (Suc j) xs"
    using assms(2) by (rule id_take_nth_drop)
  then have "distinct (take j xs @ xs ! j # drop (Suc j) xs)"
    using assms(1) by simp
  then have "xs ! j \<notin> set (take j xs)" "xs ! j \<notin> set (drop (Suc j) xs)"
    by simp_all
  moreover have "set xs = set (take j xs) \<union> {xs ! j} \<union> set (drop (Suc j) xs)"
    by (subst xs) auto
  ultimately show ?thesis
    by (auto simp: remove_nth_def)
qed

lemma pick_length:
  "length raws \<le> length pool \<Longrightarrow> length (pick pool raws) = length raws"
proof (induction raws arbitrary: pool)
  case Nil
  then show ?case by simp
next
  case (Cons r raws)
  then have ne: "pool \<noteq> []" by auto
  then have "r mod length pool < length pool" by simp
  then have "length (remove_nth (r mod length pool) pool) = length pool - 1"
    by (rule length_remove_nth)
  then have "length raws \<le> length (remove_nth (r mod length pool) pool)"
    using Cons.prems by simp
  then show ?case
    using ne by (simp add: Cons.IH)
qed

lemma pick_distinct:
  "distinct pool \<Longrightarrow> distinct (pick pool raws) \<and> set (pick pool raws) \<subseteq> set pool"
proof (induction raws arbitrary: pool)
  case Nil
  then show ?case by simp
next
  case (Cons r raws)
  show ?case
  proof (cases "pool = []")
    case True
    then show ?thesis by simp
  next
    case False
    let ?j = "r mod length pool"
    have j: "?j < length pool" using False by simp
    have d: "distinct (remove_nth ?j pool)"
      using Cons.prems by (rule distinct_remove_nth)
    have s: "set (remove_nth ?j pool) = set pool - {pool ! ?j}"
      using Cons.prems j by (rule set_remove_nth)
    have "distinct (pick (remove_nth ?j pool) raws)"
      "set (pick (remove_nth ?j pool) raws) \<subseteq> set pool - {pool ! ?j}"
      using Cons.IH [OF d] s by simp_all
    then show ?thesis
      using False j by auto
  qed
qed

lemma positions_Nil: "raws \<in> positions n 0 \<longleftrightarrow> raws = []"
  by (simp add: positions_def)

lemma positions_Cons:
  "r # raws \<in> positions n (Suc k) \<longleftrightarrow> r < n \<and> raws \<in> positions (n - 1) k"
proof -
  have "(\<forall>i < Suc k. (r # raws) ! i < n - i) \<longleftrightarrow> r < n \<and> (\<forall>i < k. raws ! i < n - 1 - i)"
    by (auto simp: less_Suc_eq_0_disj)
  then show ?thesis
    by (auto simp: positions_def)
qed

lemma positions_length: "raws \<in> positions n k \<Longrightarrow> length raws = k"
  by (simp add: positions_def)

lemma pick_inj:
  "distinct pool \<Longrightarrow> raws \<in> positions (length pool) k \<Longrightarrow>
   raws' \<in> positions (length pool) k \<Longrightarrow> pick pool raws = pick pool raws' \<Longrightarrow> raws = raws'"
proof (induction raws arbitrary: raws' pool k)
  case Nil
  then show ?case by (simp add: positions_def)
next
  case (Cons r raws)
  obtain k' where k: "k = Suc k'"
    using positions_length [OF Cons.prems(2)] by (cases k) auto
  obtain r' rs' where raws': "raws' = r' # rs'"
    using positions_length [OF Cons.prems(3)] k by (cases raws') auto
  have r: "r < length pool" "raws \<in> positions (length pool - 1) k'"
    using Cons.prems(2) by (simp_all add: k positions_Cons)
  have r': "r' < length pool" "rs' \<in> positions (length pool - 1) k'"
    using Cons.prems(3) by (simp_all add: k raws' positions_Cons)
  have ne: "pool \<noteq> []" using r(1) by auto
  have eq: "pool ! r = pool ! r'"
    "pick (remove_nth r pool) raws = pick (remove_nth r' pool) rs'"
    using Cons.prems(4) ne r(1) r'(1) by (simp_all add: raws')
  have rr: "r = r'"
    using eq(1) Cons.prems(1) r(1) r'(1) by (simp add: nth_eq_iff_index_eq)
  have d: "distinct (remove_nth r pool)"
    using Cons.prems(1) by (rule distinct_remove_nth)
  have l: "length (remove_nth r pool) = length pool - 1"
    using r(1) by (rule length_remove_nth)
  have in1: "raws \<in> positions (length (remove_nth r pool)) k'"
    using r(2) by (simp add: l)
  have in2: "rs' \<in> positions (length (remove_nth r pool)) k'"
    using r'(2) by (simp add: l)
  have eq': "pick (remove_nth r pool) raws = pick (remove_nth r pool) rs'"
    using eq(2) by (simp add: rr)
  have "raws = rs'"
    using d in1 in2 eq' by (rule Cons.IH)
  then show ?case
    by (simp add: raws' rr)
qed

lemma pick_surj:
  "distinct pool \<Longrightarrow> distinct xs \<Longrightarrow> set xs \<subseteq> set pool \<Longrightarrow>
   \<exists>raws \<in> positions (length pool) (length xs). pick pool raws = xs"
proof (induction xs arbitrary: pool)
  case Nil
  then show ?case by (simp add: positions_def)
next
  case (Cons x xs)
  then have "x \<in> set pool" by simp
  then obtain r where r: "r < length pool" "pool ! r = x"
    by (auto simp: in_set_conv_nth)
  have ne: "pool \<noteq> []" using r(1) by auto
  have d: "distinct (remove_nth r pool)"
    using Cons.prems(1) by (rule distinct_remove_nth)
  have s: "set (remove_nth r pool) = set pool - {x}"
    using set_remove_nth [OF Cons.prems(1) r(1)] r(2) by simp
  have l: "length (remove_nth r pool) = length pool - 1"
    using r(1) by (rule length_remove_nth)
  have "distinct xs" "set xs \<subseteq> set (remove_nth r pool)"
    using Cons.prems(2,3) s by auto
  from Cons.IH [OF d this]
  obtain raws where raws: "raws \<in> positions (length pool - 1) (length xs)"
    "pick (remove_nth r pool) raws = xs"
    by (auto simp: l)
  have "r # raws \<in> positions (length pool) (length (x # xs))"
    using r(1) raws(1) by (simp add: positions_Cons)
  moreover have "pick pool (r # raws) = x # xs"
    using ne r raws(2) by simp
  ultimately show ?case by blast
qed

lemma pick_bij:
  assumes "distinct pool"
  shows "bij_betw (pick pool) (positions (length pool) k)
           {xs. length xs = k \<and> distinct xs \<and> set xs \<subseteq> set pool}"
  unfolding bij_betw_def
proof
  show "inj_on (pick pool) (positions (length pool) k)"
    using pick_inj [OF assms] by (auto simp: inj_on_def)
  show "pick pool ` positions (length pool) k
          = {xs. length xs = k \<and> distinct xs \<and> set xs \<subseteq> set pool}"
  proof (intro equalityI subsetI)
    fix xs assume "xs \<in> pick pool ` positions (length pool) k"
    then obtain raws where raws: "raws \<in> positions (length pool) k" "xs = pick pool raws"
      by blast
    have "length xs = k"
    proof (cases "k \<le> length pool")
      case True
      then show ?thesis
        using raws pick_length [of raws pool] by (simp add: positions_length)
    next
      case False
      then have "length pool < k" by simp
      moreover have "\<forall>i < k. raws ! i < length pool - i"
        using raws(1) by (simp add: positions_def)
      ultimately have "raws ! length pool < length pool - length pool"
        by blast
      then show ?thesis by simp
    qed
    then show "xs \<in> {xs. length xs = k \<and> distinct xs \<and> set xs \<subseteq> set pool}"
      using pick_distinct [OF assms, of raws] raws(2) by simp
  next
    fix xs assume "xs \<in> {xs. length xs = k \<and> distinct xs \<and> set xs \<subseteq> set pool}"
    then have "length xs = k" "distinct xs" "set xs \<subseteq> set pool" by simp_all
    then show "xs \<in> pick pool ` positions (length pool) k"
      using pick_surj [OF assms, of xs] by auto
  qed
qed

lemma random_sample_draw:
  assumes "0 \<le> k" and "k \<le> n"
  shows "random_sample n k raw = Inr (pick [0 .. n - 1] (map raw [0 ..< nat k]))"
    and "int (length (pick [0 .. n - 1] (map raw [0 ..< nat k]))) = k"
    and "distinct (pick [0 .. n - 1] (map raw [0 ..< nat k]))"
    and "\<forall>i \<in> set (pick [0 .. n - 1] (map raw [0 ..< nat k])). 0 \<le> i \<and> i < n"
proof -
  show "random_sample n k raw = Inr (pick [0 .. n - 1] (map raw [0 ..< nat k]))"
    using assms by (simp add: random_sample_def)
  have "length (map raw [0 ..< nat k]) \<le> length [0 .. n - 1]"
    using assms by simp
  then have "length (pick [0 .. n - 1] (map raw [0 ..< nat k])) = length (map raw [0 ..< nat k])"
    by (rule pick_length)
  then show "int (length (pick [0 .. n - 1] (map raw [0 ..< nat k]))) = k"
    using assms by simp
  have d: "distinct [0 .. n - 1]" by simp
  show "distinct (pick [0 .. n - 1] (map raw [0 ..< nat k]))"
    using pick_distinct [OF d] by blast
  have "set (pick [0 .. n - 1] (map raw [0 ..< nat k])) \<subseteq> set [0 .. n - 1]"
    using pick_distinct [OF d] by blast
  then show "\<forall>i \<in> set (pick [0 .. n - 1] (map raw [0 ..< nat k])). 0 \<le> i \<and> i < n"
    by auto
qed

lemma to_long_in_range:
  "list_all (\<lambda>a. - (2 ^ 63) \<le> a \<and> a < 2 ^ 63) xs \<Longrightarrow> to_long xs = Inr xs"
  by (simp add: to_long_def)

lemma pick_reduce:
  "length raws \<le> length pool \<Longrightarrow>
   pick pool raws = pick pool (map (\<lambda>i. raws ! i mod (length pool - i)) [0 ..< length raws])"
proof (induction raws arbitrary: pool)
  case Nil
  then show ?case by simp
next
  case (Cons r raws)
  then have ne: "pool \<noteq> []" by auto
  let ?j = "r mod length pool"
  have j: "?j < length pool" using ne by simp
  have l: "length (remove_nth ?j pool) = length pool - 1"
    using j by (rule length_remove_nth)
  have le: "length raws \<le> length (remove_nth ?j pool)"
    using Cons.prems l by simp
  have "[0 ..< length (r # raws)] = 0 # map Suc [0 ..< length raws]"
    by (simp add: upt_conv_Cons map_Suc_upt del: upt_Suc)
  then have "map (\<lambda>i. (r # raws) ! i mod (length pool - i)) [0 ..< length (r # raws)]
      = ?j # map (\<lambda>i. raws ! i mod (length pool - 1 - i)) [0 ..< length raws]"
    by (simp add: comp_def del: upt_Suc)
  then have "pick pool (map (\<lambda>i. (r # raws) ! i mod (length pool - i)) [0 ..< length (r # raws)])
      = pool ! ?j # pick (remove_nth ?j pool)
          (map (\<lambda>i. raws ! i mod (length pool - 1 - i)) [0 ..< length raws])"
    using ne by simp
  also have "\<dots> = pool ! ?j # pick (remove_nth ?j pool) raws"
    using Cons.IH [OF le] by (simp add: l)
  finally show ?case
    using ne by simp
qed

lemma reduced_positions:
  "k \<le> n \<Longrightarrow> map (\<lambda>i. raw i mod (n - i)) [0 ..< k] \<in> positions n k"
  by (simp add: positions_def)

lemma pick_reduce_raw:
  assumes "k \<le> length pool"
  shows "pick pool (map raw [0 ..< k]) = pick pool (map (\<lambda>i. raw i mod (length pool - i)) [0 ..< k])"
proof -
  have "map (\<lambda>i. map raw [0 ..< k] ! i mod (length pool - i)) [0 ..< k]
      = map (\<lambda>i. raw i mod (length pool - i)) [0 ..< k]"
    by (rule nth_equalityI) simp_all
  moreover have "pick pool (map raw [0 ..< k])
      = pick pool (map (\<lambda>i. map raw [0 ..< k] ! i mod (length pool - i)) [0 ..< k])"
    using pick_reduce [of "map raw [0 ..< k]" pool] assms by simp
  ultimately show ?thesis
    by (simp only:)
qed


lemma upto_small: "[0 .. 2] = [0, 1, (2::int)]" "[0 .. 1] = [0, (1::int)]"
  by (simp_all add: upto_rec1 [of 0 2] upto_rec1 [of 1 2] upto_rec1 [of 0 1])

lemma upt_small: "[0 ..< 2] = [0, 1::nat]"
  by (simp add: numeral_2_eq_2)


text \<open>
  C7. Let the store hold more than \<open>batch_size\<close> transitions, \<open>batch_size\<close> positive, the
  history at least 1, the stored frames of one shape and the stored actions within
  \<^verbatim>\<open>int64\<close>. Then \<open>sample\<close> succeeds, for every sequence \<open>raw\<close> of generated numbers:
  \<^item> \<^verbatim>\<open>random.sample\<close>, called on \<open>range(len)\<close> with \<open>k = batch_size\<close>, returns the list
    \<open>drawn\<close> of \<open>batch_size\<close> distinct indices of \<open>[0, len)\<close>;
  \<^item> uniformly: \<open>drawn\<close> is read off the positions \<open>raw i mod (len - i)\<close> that the generator
    delivers, and the reading is a bijection from the possible position lists, each equally
    likely, onto the lists of \<open>batch_size\<close> distinct indices of \<open>[0, len)\<close>; so every such
    list is drawn with the same probability;
  \<^item> the result is the five stacked arrays: for each drawn index \<open>idx\<close> the encoder's stack
    for \<open>idx\<close>, the stored action, the stored reward rounded to \<^verbatim>\<open>float32\<close>, the encoder's
    stack for \<open>idx + 1\<close>, and the stored flag as 1 or 0.
\<close>

theorem sample_batch:
  assumes sh: "frames_shaped c k (memory rb)"
    and big: "batch_size rb < len rb"
    and pos: "0 < batch_size rb"
    and h: "1 \<le> frame_history rb"
    and acts: "list_all (\<lambda>e. - (2 ^ 63) \<le> action e \<and> action e < 2 ^ 63) (memory rb)"
  shows "\<exists>drawn E.
       random_sample (len rb) (batch_size rb) raw = Inr drawn
     \<and> int (length drawn) = batch_size rb
     \<and> distinct drawn
     \<and> (\<forall>i \<in> set drawn. 0 \<le> i \<and> i < len rb)
     \<and> map (\<lambda>i. raw i mod (nat (len rb) - i)) [0 ..< nat (batch_size rb)]
           \<in> positions (nat (len rb)) (nat (batch_size rb))
     \<and> drawn = pick [0 .. len rb - 1]
                 (map (\<lambda>i. raw i mod (nat (len rb) - i)) [0 ..< nat (batch_size rb)])
     \<and> bij_betw (pick [0 .. len rb - 1])
         (positions (nat (len rb)) (nat (batch_size rb)))
         {xs. length xs = nat (batch_size rb) \<and> distinct xs \<and> set xs \<subseteq> {0 ..< len rb}}
     \<and> (\<forall>i. 0 \<le> i \<longrightarrow> encode_state rb i = Inr [E i])
     \<and> sample rb raw =
         Inr (map E drawn,
              map (\<lambda>i. action (memory rb ! nat i)) drawn,
              map (\<lambda>i. float32 (reward (memory rb ! nat i))) drawn,
              map (\<lambda>i. E (i + 1)) drawn,
              map (\<lambda>i. if done (memory rb ! nat i) then Fin 1 else Fin 0) drawn)"
proof -
  let ?n = "len rb" and ?k = "batch_size rb"
  let ?pool = "[0 .. ?n - 1]"
  let ?drawn = "pick ?pool (map raw [0 ..< nat ?k])"
  let ?pos = "map (\<lambda>i. raw i mod (nat ?n - i)) [0 ..< nat ?k]"
  have ne: "memory rb \<noteq> []"
    using big pos by (auto simp: len_def)
  have kn: "0 \<le> ?k" "?k \<le> ?n"
    using big pos by simp_all
  have lp: "length ?pool = nat ?n"
    using big pos by simp
  have sp: "set ?pool = {0 ..< ?n}"
    by auto
  have rs: "random_sample ?n ?k raw = Inr ?drawn"
    and ld: "int (length ?drawn) = ?k"
    and dd: "distinct ?drawn"
    and rd: "\<forall>i \<in> set ?drawn. 0 \<le> i \<and> i < ?n"
    using random_sample_draw [OF kn] by blast+
  have kl: "nat ?k \<le> length ?pool"
    using kn lp by simp
  have ps: "?pos \<in> positions (nat ?n) (nat ?k)"
    using kn by (intro reduced_positions) simp
  have dp: "?drawn = pick ?pool ?pos"
    using pick_reduce_raw [OF kl, of raw] by (simp only: lp)
  have "bij_betw (pick ?pool) (positions (length ?pool) (nat ?k))
          {xs. length xs = nat ?k \<and> distinct xs \<and> set xs \<subseteq> set ?pool}"
    by (rule pick_bij) simp
  then have bj: "bij_betw (pick ?pool) (positions (nat ?n) (nat ?k))
          {xs. length xs = nat ?k \<and> distinct xs \<and> set xs \<subseteq> {0 ..< ?n}}"
    by (simp only: lp sp)
  have "\<forall>i. \<exists>a. 0 \<le> i \<longrightarrow>
          encode_state rb i = Inr [a] \<and> map length a = replicate (nat (frame_history rb) * c) k"
    using encode_state_total [OF sh ne _ h] by blast
  then obtain E where E: "\<forall>i. 0 \<le> i \<longrightarrow>
          encode_state rb i = Inr [E i] \<and> map length (E i) = replicate (nat (frame_history rb) * c) k"
    by metis
  have rng: "list_all (\<lambda>i. 0 \<le> i \<and> i < int (length (memory rb))) ?drawn"
    using rd by (simp add: list_all_iff len_def)
  have dne: "?drawn \<noteq> []"
    using ld pos by auto
  have nonneg: "\<forall>i \<in> set ?drawn. 0 \<le> i"
    using rd by simp
  let ?exps = "map (\<lambda>i. \<lparr>state = [E i], action = action (memory rb ! nat i),
                      reward = reward (memory rb ! nat i), next_state = [E (i + 1)],
                      done = done (memory rb ! nat i)\<rparr>) ?drawn"
  have ge: "get_experiences rb ?drawn = Inr ?exps"
    using E rng by (intro get_experiences_map) simp_all
  have rs': "random_sample (int (length (memory rb))) (batch_size rb) raw = Inr ?drawn"
    using rs by (simp only: len_def)
  have F: "\<forall>i \<in> set ?drawn. map length (E i) = replicate (nat (frame_history rb) * c) k"
    "\<forall>i \<in> set ?drawn. map length (E (i + 1)) = replicate (nat (frame_history rb) * c) k"
    using E nonneg by simp_all
  have ms: "map state ?exps = map (\<lambda>i. [E i]) ?drawn"
    and mn: "map next_state ?exps = map (\<lambda>i. [E (i + 1)]) ?drawn"
    by simp_all
  have st: "concatenate0 (map length) (map state ?exps) = Inr (map E ?drawn)"
    unfolding ms using dne F(1) by (rule vstack_encoded)
  have nx: "concatenate0 (map length) (map next_state ?exps) = Inr (map (\<lambda>i. E (i + 1)) ?drawn)"
    unfolding mn using dne F(2) by (rule vstack_encoded)
  have va: "vstack_scalars (map action ?exps) = Inr (map (\<lambda>i. action (memory rb ! nat i)) ?drawn)"
    and vr: "vstack_scalars (map reward ?exps) = Inr (map (\<lambda>i. reward (memory rb ! nat i)) ?drawn)"
    and vd: "vstack_scalars (map done ?exps) = Inr (map (\<lambda>i. done (memory rb ! nat i)) ?drawn)"
    using dne by (simp_all add: vstack_scalars_def comp_def)
  have "list_all (\<lambda>a. - (2 ^ 63) \<le> a \<and> a < 2 ^ 63)
          (map (\<lambda>i. action (memory rb ! nat i)) ?drawn)"
    using acts rng by (auto simp: list_all_iff nat_less_iff)
  then have tl: "to_long (map (\<lambda>i. action (memory rb ! nat i)) ?drawn)
               = Inr (map (\<lambda>i. action (memory rb ! nat i)) ?drawn)"
    by (rule to_long_in_range)
  have "sample rb raw =
         Inr (map E ?drawn,
              map (\<lambda>i. action (memory rb ! nat i)) ?drawn,
              map float32 (map (\<lambda>i. reward (memory rb ! nat i)) ?drawn),
              map (\<lambda>i. E (i + 1)) ?drawn,
              map (\<lambda>d. if d then Fin 1 else Fin 0) (map (\<lambda>i. done (memory rb ! nat i)) ?drawn))"
    by (simp only: sample_def rs' ge st va tl vr nx vd sum.case)
  then have sm: "sample rb raw =
         Inr (map E ?drawn,
              map (\<lambda>i. action (memory rb ! nat i)) ?drawn,
              map (\<lambda>i. float32 (reward (memory rb ! nat i))) ?drawn,
              map (\<lambda>i. E (i + 1)) ?drawn,
              map (\<lambda>i. if done (memory rb ! nat i) then Fin 1 else Fin 0) ?drawn)"
    by (simp add: comp_def)
  have En: "\<forall>i. 0 \<le> i \<longrightarrow> encode_state rb i = Inr [E i]"
    using E by blast
  show ?thesis
    using rs ld dd rd ps dp bj En sm by blast
qed

theorem sample_batch_witness:
  "frames_shaped 1 2 (memory exStore)
   \<and> batch_size exStore < len exStore
   \<and> 0 < batch_size exStore
   \<and> 1 \<le> frame_history exStore
   \<and> list_all (\<lambda>e. - (2 ^ 63) \<le> action e \<and> action e < 2 ^ 63) (memory exStore)
   \<and> (\<exists>drawn E.
       random_sample (len exStore) (batch_size exStore) exRaw = Inr drawn
     \<and> int (length drawn) = batch_size exStore
     \<and> distinct drawn
     \<and> (\<forall>i \<in> set drawn. 0 \<le> i \<and> i < len exStore)
     \<and> map (\<lambda>i. exRaw i mod (nat (len exStore) - i)) [0 ..< nat (batch_size exStore)]
           \<in> positions (nat (len exStore)) (nat (batch_size exStore))
     \<and> drawn = pick [0 .. len exStore - 1]
                 (map (\<lambda>i. exRaw i mod (nat (len exStore) - i)) [0 ..< nat (batch_size exStore)])
     \<and> bij_betw (pick [0 .. len exStore - 1])
         (positions (nat (len exStore)) (nat (batch_size exStore)))
         {xs. length xs = nat (batch_size exStore) \<and> distinct xs \<and> set xs \<subseteq> {0 ..< len exStore}}
     \<and> (\<forall>i. 0 \<le> i \<longrightarrow> encode_state exStore i = Inr [E i])
     \<and> sample exStore exRaw =
         Inr (map E drawn,
              map (\<lambda>i. action (memory exStore ! nat i)) drawn,
              map (\<lambda>i. float32 (reward (memory exStore ! nat i))) drawn,
              map (\<lambda>i. E (i + 1)) drawn,
              map (\<lambda>i. if done (memory exStore ! nat i) then Fin 1 else Fin 0) drawn))
   \<and> random_sample (len exStore) (batch_size exStore) exRaw = Inr [1, 0]
   \<and> sample exStore exRaw =
     Inr ([[[2 / 51, 4 / 51], [2 / 17, 8 / 51]], [[0, 0], [2 / 51, 4 / 51]]],
          [1, 0],
          [Fin 0, Fin (13421773 / 67108864)],
          [[[0, 0], [1 / 5, 1]], [[2 / 51, 4 / 51], [2 / 17, 8 / 51]]],
          [Fin 1, Fin 0])"
proof -
  have sh: "frames_shaped 1 2 (memory exStore)"
    by (simp add: frames_shaped_def exStore_def store_def trA_def trB_def trC_def frameA_def
        frameB_def frameC_def)
  have big: "batch_size exStore < len exStore"
    and pos: "0 < batch_size exStore"
    and h: "1 \<le> frame_history exStore"
    by (simp_all add: exStore_def store_def len_def)
  have acts: "list_all (\<lambda>e. - (2 ^ 63) \<le> action e \<and> action e < 2 ^ 63) (memory exStore)"
    by (simp add: exStore_def store_def trA_def trB_def trC_def)
  have r: "random_sample (len exStore) (batch_size exStore) exRaw = Inr [1, 0]"
    by (simp add: random_sample_def exStore_def store_def len_def exRaw_def remove_nth_def
        upto_small upt_small)
  have v: "sample exStore exRaw =
     Inr ([[[2 / 51, 4 / 51], [2 / 17, 8 / 51]], [[0, 0], [2 / 51, 4 / 51]]],
          [1, 0],
          [Fin 0, Fin (13421773 / 67108864)],
          [[[0, 0], [1 / 5, 1]], [[2 / 51, 4 / 51], [2 / 17, 8 / 51]]],
          [Fin 1, Fin 0])"
    using r
    by (simp add: sample_def len_def encode_state_def to_long_def float32_zero float32_fifth
        encode_frames_def Let_def getitem_mod_def slot_def zero_frames_def getitem_def
        concatenate0_def vstack_scalars_def normalize_def zeros_like_def upto_rec1 [of 0 1]
        exStore_def store_def trA_def trB_def trC_def frameA_def frameB_def frameC_def)
  show ?thesis
    by (intro conjI sh big pos h acts r v sample_batch [OF sh big pos h acts])
qed

section \<open>The stored next state\<close>

lemma slot_map: "mem \<noteq> [] \<Longrightarrow> slot (map f mem) i = f (slot mem i)"
proof -
  assume ne: "mem \<noteq> []"
  then have "0 < int (length mem)" by simp
  then have "0 \<le> i mod int (length mem)" "i mod int (length mem) < int (length mem)"
    by simp_all
  then have "nat (i mod int (length mem)) < length mem"
    by (simp add: nat_less_iff)
  then show ?thesis
    by (simp add: slot_def)
qed

lemma getitem_mod_map:
  "getitem_mod (map f mem) i =
     (case getitem_mod mem i of Inl e \<Rightarrow> Inl e | Inr x \<Rightarrow> Inr (f x))"
  by (cases "mem = []") (simp_all add: getitem_mod_def slot_map)

lemma scan_done_map:
  "\<forall>x. done (f x) = done x \<Longrightarrow> scan_done (map f mem) is s = scan_done mem is s"
  by (induction "is" arbitrary: s) (simp_all add: getitem_mod_map split: sum.splits)

lemma append_frames_map_store:
  "\<forall>x. state (f x) = state x \<Longrightarrow>
   append_frames (map f mem) is frames = append_frames mem is frames"
  by (induction "is" arbitrary: frames) (simp_all add: getitem_mod_map split: sum.splits)

lemma zero_frames_map:
  "\<forall>x. state (f x) = state x \<Longrightarrow> zero_frames (map f mem) m = zero_frames mem m"
  by (cases "mem = []") (simp_all add: zero_frames_def)

lemma encode_frames_map:
  assumes "\<forall>x. state (f x) = state x" and "\<forall>x. done (f x) = done x"
  shows "encode_frames (rb\<lparr>memory := map f (memory rb)\<rparr>) idx = encode_frames rb idx"
  by (auto simp add: encode_frames_def Let_def scan_done_map [OF assms(2)]
      zero_frames_map [OF assms(1)] append_frames_map_store [OF assms(1)] split: sum.splits)

lemma encode_state_map:
  assumes "\<forall>x. state (f x) = state x" and "\<forall>x. done (f x) = done x"
  shows "encode_state (rb\<lparr>memory := map f (memory rb)\<rparr>) idx = encode_state rb idx"
  by (simp add: encode_state_def encode_frames_map [OF assms])

lemma getitem_map:
  "getitem (map f mem) i = (case getitem mem i of Inl e \<Rightarrow> Inl e | Inr x \<Rightarrow> Inr (f x))"
proof -
  have a: "map f mem ! nat i = f (mem ! nat i)" if "0 \<le> i" "i < int (length mem)"
    using that by (simp add: nat_less_iff)
  have b: "map f mem ! nat (int (length mem) + i) = f (mem ! nat (int (length mem) + i))"
    if "i < 0" "- int (length mem) \<le> i"
    using that by (intro nth_map) linarith
  show ?thesis
    using a b by (auto simp: getitem_def)
qed

lemma get_experiences_map_store:
  assumes "\<forall>x. state (f x) = state x" and "\<forall>x. done (f x) = done x"
    and "\<forall>x. action (f x) = action x" and "\<forall>x. reward (f x) = reward x"
  shows "get_experiences (rb\<lparr>memory := map f (memory rb)\<rparr>) drawn = get_experiences rb drawn"
  by (induction drawn)
    (simp_all add: encode_state_map [OF assms(1,2)] getitem_map assms(2,3,4) split: sum.splits)

lemma sample_map_store:
  assumes "\<forall>x. state (f x) = state x" and "\<forall>x. done (f x) = done x"
    and "\<forall>x. action (f x) = action x" and "\<forall>x. reward (f x) = reward x"
  shows "sample (rb\<lparr>memory := map f (memory rb)\<rparr>) raw = sample rb raw"
  by (simp add: sample_def get_experiences_map_store [OF assms] cong: sum.case_cong)

text \<open>
  C10. Overwriting the \<open>next_state\<close> field of every stored transition changes no result
  of \<open>_encode_state\<close>, \<open>get_experiences\<close> or \<open>sample\<close>. The next state of a sampled index
  \<open>idx\<close> is \<open>_encode_state(idx + 1)\<close>, whose frames are zero frames and the \<open>state\<close> frames of
  the slots of \<open>start, \<dots>, idx + 1\<close> with \<open>idx - H + 2 \<le> start\<close>; and the last frame of
  \<open>_encode_state(length)\<close> is the \<open>state\<close> frame stored in slot 0.
\<close>

theorem next_state_never_read:
  "(\<forall>g idx drawn raw.
      encode_state (rb\<lparr>memory := map (\<lambda>e. e\<lparr>next_state := g e\<rparr>) (memory rb)\<rparr>) idx
        = encode_state rb idx
    \<and> get_experiences (rb\<lparr>memory := map (\<lambda>e. e\<lparr>next_state := g e\<rparr>) (memory rb)\<rparr>) drawn
        = get_experiences rb drawn
    \<and> sample (rb\<lparr>memory := map (\<lambda>e. e\<lparr>next_state := g e\<rparr>) (memory rb)\<rparr>) raw
        = sample rb raw)
   \<and> (\<forall>idx e. get_experiences rb [idx] = Inr [e] \<longrightarrow>
         encode_state rb (idx + 1) = Inr (next_state e))
   \<and> (memory rb \<noteq> [] \<and> 1 \<le> frame_history rb \<longrightarrow>
       (\<forall>idx. 0 \<le> idx \<longrightarrow>
          (\<exists>start. idx - frame_history rb + 2 \<le> start \<and> start \<le> idx + 1
             \<and> encode_frames rb (idx + 1) =
                 Inr (replicate (nat (frame_history rb - (idx + 2 - start)))
                        (zeros_like (state (memory rb ! 0)))
                      @ map (\<lambda>i. state (slot (memory rb) i)) [start .. idx + 1])))
       \<and> (\<exists>fs. encode_frames rb (len rb) = Inr fs \<and> last fs = state (memory rb ! 0)))"
proof (intro conjI allI impI)
  fix g :: "frame Experience \<Rightarrow> frame" and idx :: int and drawn :: "int list"
    and raw :: "nat \<Rightarrow> nat"
  let ?f = "\<lambda>e. e\<lparr>next_state := g e\<rparr>"
  show "encode_state (rb\<lparr>memory := map ?f (memory rb)\<rparr>) idx = encode_state rb idx"
    by (rule encode_state_map) simp_all
  show "get_experiences (rb\<lparr>memory := map ?f (memory rb)\<rparr>) drawn = get_experiences rb drawn"
    by (rule get_experiences_map_store) simp_all
  show "sample (rb\<lparr>memory := map ?f (memory rb)\<rparr>) raw = sample rb raw"
    by (rule sample_map_store) simp_all
next
  fix idx e
  assume "get_experiences rb [idx] = Inr [e]"
  then show "encode_state rb (idx + 1) = Inr (next_state e)"
    by (auto split: sum.splits)
next
  fix idx :: int
  assume a: "memory rb \<noteq> [] \<and> 1 \<le> frame_history rb" and idx: "0 \<le> idx"
  then have "0 \<le> idx + 1" by simp
  from encode_frames_stack [OF _ this, of rb] a
  obtain start where "idx + 1 + 1 - frame_history rb \<le> start" "start \<le> idx + 1"
     "encode_frames rb (idx + 1) =
         Inr (replicate (nat (frame_history rb - (idx + 1 + 1 - start)))
                (zeros_like (state (memory rb ! 0)))
              @ map (\<lambda>i. state (slot (memory rb) i)) [start .. idx + 1])"
    by blast
  then show "\<exists>start. idx - frame_history rb + 2 \<le> start \<and> start \<le> idx + 1
             \<and> encode_frames rb (idx + 1) =
                 Inr (replicate (nat (frame_history rb - (idx + 2 - start)))
                        (zeros_like (state (memory rb ! 0)))
                      @ map (\<lambda>i. state (slot (memory rb) i)) [start .. idx + 1])"
    by (intro exI [of _ start]) (simp add: algebra_simps)
next
  assume a: "memory rb \<noteq> [] \<and> 1 \<le> frame_history rb"
  have "0 \<le> len rb" by (simp add: len_def)
  from encode_frames_stack [OF _ this] a
  obtain start where s: "start \<le> len rb"
    and fr: "encode_frames rb (len rb) =
         Inr (replicate (nat (frame_history rb - (len rb + 1 - start)))
                (zeros_like (state (memory rb ! 0)))
              @ map (\<lambda>i. state (slot (memory rb) i)) [start .. len rb])"
    by blast
  have "[start .. len rb] = [start .. len rb - 1] @ [len rb]"
    using s by (rule upto_rec2)
  then have "last (replicate (nat (frame_history rb - (len rb + 1 - start)))
                (zeros_like (state (memory rb ! 0)))
              @ map (\<lambda>i. state (slot (memory rb) i)) [start .. len rb])
            = state (slot (memory rb) (len rb))"
    by simp
  also have "slot (memory rb) (len rb) = memory rb ! 0"
    by (simp add: slot_def len_def)
  finally show "\<exists>fs. encode_frames rb (len rb) = Inr fs \<and> last fs = state (memory rb ! 0)"
    using fr by blast
qed

text \<open>With \<open>[A, B, C]\<close> stored and \<open>H = 2\<close>, the next state of the newest index 2 is
  built from the frames of \<open>C\<close> and \<open>A\<close>; the stored successor frame of \<open>C\<close> is another one.\<close>

theorem next_state_never_read_witness:
  "memory (store 3 2 2 [trA, trB, trC]) \<noteq> [] \<and> 1 \<le> frame_history (store 3 2 2 [trA, trB, trC])
   \<and> encode_frames (store 3 2 2 [trA, trB, trC]) (len (store 3 2 2 [trA, trB, trC]))
       = Inr [frameC, frameA]
   \<and> next_state (last (memory (store 3 2 2 [trA, trB, trC]))) = frameN
   \<and> frameN \<noteq> frameA
   \<and> get_experiences (store 3 2 2 [trA, trB, trC]) [2] =
       Inr [\<lparr>state = [[[0, 0], [1 / 5, 1]]], action = 0, reward = 2,
             next_state = [[[1 / 5, 1], [2 / 51, 4 / 51]]], done = False\<rparr>]
   \<and> encode_state (store 3 2 2 [trA, trB, trC]) 3 = Inr [[[1 / 5, 1], [2 / 51, 4 / 51]]]
   \<and> random_sample (len (store 3 2 2 [trA, trB, trC])) 2 exRawLast = Inr [2, 0]
   \<and> sample (store 3 2 2 (map (\<lambda>e. e\<lparr>next_state := []\<rparr>) [trA, trB, trC])) exRawLast
       = sample (store 3 2 2 [trA, trB, trC]) exRawLast"
proof -
  let ?rb = "store 3 2 2 [trA, trB, trC]"
  have g: "get_experiences ?rb [2] =
       Inr [\<lparr>state = [[[0, 0], [1 / 5, 1]]], action = 0, reward = 2,
             next_state = [[[1 / 5, 1], [2 / 51, 4 / 51]]], done = False\<rparr>]"
    by (simp add: encode_state_def
        encode_frames_def Let_def getitem_mod_def slot_def zero_frames_def getitem_def
        concatenate0_def normalize_def zeros_like_def upto_rec1 [of 2 3]
        store_def trA_def trB_def trC_def frameA_def frameB_def frameC_def)
  have f: "encode_frames ?rb (len ?rb) = Inr [frameC, frameA]"
    by (simp add: encode_frames_def Let_def getitem_mod_def slot_def zero_frames_def len_def
        upto_rec1 [of 2 3] store_def trA_def trB_def trC_def)
  have s: "?rb\<lparr>memory := map (\<lambda>e. e\<lparr>next_state := []\<rparr>) (memory ?rb)\<rparr>
           = store 3 2 2 (map (\<lambda>e. e\<lparr>next_state := []\<rparr>) [trA, trB, trC])"
    by (simp add: store_def)
  have n: "memory ?rb \<noteq> [] \<and> 1 \<le> frame_history ?rb"
    by (simp add: store_def)
  have t: "next_state (last (memory ?rb)) = frameN \<and> frameN \<noteq> frameA"
    by (simp add: store_def trC_def frameN_def frameA_def)
  have r: "random_sample (len ?rb) 2 exRawLast = Inr [2, 0]"
    by (simp add: random_sample_def store_def len_def exRawLast_def remove_nth_def
        upto_small upt_small)
  have a: "sample (?rb\<lparr>memory := map (\<lambda>e. e\<lparr>next_state := []\<rparr>) (memory ?rb)\<rparr>) exRawLast
          = sample ?rb exRawLast"
    using next_state_never_read [of ?rb, THEN conjunct1, rule_format, of "\<lambda>_. []" 0 "[]" exRawLast]
    by simp
  have b: "encode_state ?rb (2 + 1) = Inr (next_state
          \<lparr>state = [[[0, 0], [1 / 5, 1]]], action = 0, reward = 2,
             next_state = [[[1 / 5, 1], [2 / 51, 4 / 51]]], done = False\<rparr>)"
    by (rule next_state_never_read [of ?rb, THEN conjunct2, THEN conjunct1, rule_format, OF g])
  from a b show ?thesis
    using g f n t r by (simp add: s)
qed


section \<open>The soft update\<close>

lemma collect_map:
  "\<forall>x \<in> set xs. g x = Inr (h x) \<Longrightarrow> collect (map g xs) = Inr (map h xs)"
  by (induction xs) simp_all

lemma stack_map:
  assumes "\<forall>x \<in> set xs. g x = Inr (h x)"
  shows "stack (map g xs) = Inr (Stack (map h xs))"
  by (simp add: stack_def collect_map [OF assms])

lemma shape_Stack_length: "shape (Stack xs) = shape (Stack ys) \<Longrightarrow> length xs = length ys"
  by (cases xs; cases ys) simp_all

lemma shape_Stack_hd:
  "shape (Stack xs) = shape (Stack ys) \<Longrightarrow> xs \<noteq> [] \<Longrightarrow> shape (hd xs) = shape (hd ys)"
  by (cases xs; cases ys) simp_all

lemma zip_slices:
  assumes "regular (Stack xs)" and "regular (Stack ys)"
    and "shape (Stack xs) = shape (Stack ys)" and "(x, y) \<in> set (zip xs ys)"
  shows "regular x" and "regular y" and "shape x = shape y" and "x \<in> set xs"
proof -
  have x: "x \<in> set xs" and y: "y \<in> set ys"
    using assms(4) by (auto dest: set_zip_leftD set_zip_rightD)
  then have "xs \<noteq> []" by auto
  then have "shape (hd xs) = shape (hd ys)"
    using assms(3) by (rule shape_Stack_hd [rotated])
  then show "regular x" and "regular y" and "shape x = shape y" and "x \<in> set xs"
    using assms(1,2) x y by (auto simp: list_all_iff)
qed

lemma combine_same_shape:
  "regular l \<Longrightarrow> regular t \<Longrightarrow> shape l = shape t \<Longrightarrow>
   combine f l t = Inr (tensor_zip f l t)"
proof (induction l arbitrary: t)
  case (Scalar x)
  then show ?case by (cases t rule: shape.cases) simp_all
next
  case (Stack xs)
  then obtain ys where t: "t = Stack ys"
    by (cases t; cases xs) simp_all
  have len: "length xs = length ys"
    using Stack.prems(3) unfolding t by (rule shape_Stack_length)
  have "\<forall>z \<in> set (zip xs ys).
          (\<lambda>(x, y). combine f x y) z = Inr ((\<lambda>(x, y). tensor_zip f x y) z)"
  proof
    fix z assume z: "z \<in> set (zip xs ys)"
    obtain x y where xy: "z = (x, y)" by (cases z)
    note s = zip_slices [OF Stack.prems(1) Stack.prems(2) [unfolded t] Stack.prems(3) [unfolded t]
        z [unfolded xy]]
    have "combine f x y = Inr (tensor_zip f x y)"
      using s by (intro Stack.IH)
    then show "(\<lambda>(x, y). combine f x y) z = Inr ((\<lambda>(x, y). tensor_zip f x y) z)"
      by (simp add: xy)
  qed
  then have "stack (map (\<lambda>(x, y). combine f x y) (zip xs ys))
      = Inr (Stack (map (\<lambda>(x, y). tensor_zip f x y) (zip xs ys)))"
    by (rule stack_map)
  then show ?case
    using len Stack.prems(3) by (simp add: t)
qed

lemma shape_tensor_zip:
  "regular l \<Longrightarrow> regular t \<Longrightarrow> shape l = shape t \<Longrightarrow> shape (tensor_zip f l t) = shape t"
proof (induction l arbitrary: t)
  case (Scalar x)
  then show ?case by (cases t rule: shape.cases) simp_all
next
  case (Stack xs)
  then obtain ys where t: "t = Stack ys"
    by (cases t; cases xs) simp_all
  show ?case
  proof (cases xs)
    case Nil
    then show ?thesis using Stack.prems(3) by (cases ys) (simp_all add: t)
  next
    case (Cons x xs')
    then obtain y ys' where ys: "ys = y # ys'"
      using Stack.prems(3) by (cases ys) (simp_all add: t)
    have "(x, y) \<in> set (zip xs ys)" by (simp add: Cons ys)
    note s = zip_slices [OF Stack.prems(1) Stack.prems(2) [unfolded t] Stack.prems(3) [unfolded t]
        this]
    have "shape (tensor_zip f x y) = shape y"
      using s by (intro Stack.IH)
    then show ?thesis
      using Stack.prems(3) by (simp add: t Cons ys)
  qed
qed

lemma shape_tensor_map: "shape (tensor_map g t) = shape t"
proof (induction t)
  case (Scalar x)
  then show ?case by simp
next
  case (Stack ts)
  then show ?case by (cases ts) simp_all
qed

lemma regular_tensor_map: "regular t \<Longrightarrow> regular (tensor_map g t)"
proof (induction t)
  case (Scalar x)
  then show ?case by simp
next
  case (Stack ts)
  then show ?case
    by (cases ts) (auto simp: list_all_iff shape_tensor_map)
qed

lemma tensor_zip_map:
  "regular l \<Longrightarrow> regular t \<Longrightarrow> shape l = shape t \<Longrightarrow>
   tensor_zip f (tensor_map g l) (tensor_map h t) = tensor_zip (\<lambda>x y. f (g x) (h y)) l t"
proof (induction l arbitrary: t)
  case (Scalar x)
  then show ?case by (cases t rule: shape.cases) simp_all
next
  case (Stack xs)
  then obtain ys where t: "t = Stack ys"
    by (cases t; cases xs) simp_all
  have "tensor_zip f (tensor_map g x) (tensor_map h y) = tensor_zip (\<lambda>x y. f (g x) (h y)) x y"
    if "(x, y) \<in> set (zip xs ys)" for x y
  proof -
    note s = zip_slices [OF Stack.prems(1) Stack.prems(2) [unfolded t] Stack.prems(3) [unfolded t]
        that]
    show ?thesis using s by (intro Stack.IH)
  qed
  then show ?case
    by (auto simp: t zip_map_map)
qed

lemma tensor_zip_left:
  assumes "\<forall>x y. P x \<and> Q y \<longrightarrow> f x y = x"
  shows "regular l \<Longrightarrow> regular t \<Longrightarrow> shape l = shape t \<Longrightarrow>
         tensor_all P l \<Longrightarrow> tensor_all Q t \<Longrightarrow> tensor_zip f l t = l"
proof (induction l arbitrary: t)
  case (Scalar x)
  then show ?case using assms by (cases t rule: shape.cases) simp_all
next
  case (Stack xs)
  then obtain ys where t: "t = Stack ys"
    by (cases t; cases xs) simp_all
  have len: "length xs = length ys"
    using Stack.prems(3) unfolding t by (rule shape_Stack_length)
  have "tensor_zip f x y = x" if "(x, y) \<in> set (zip xs ys)" for x y
  proof -
    note s = zip_slices [OF Stack.prems(1) Stack.prems(2) [unfolded t] Stack.prems(3) [unfolded t]
        that]
    have "y \<in> set ys" using that by (rule set_zip_rightD)
    then have "tensor_all P x" "tensor_all Q y"
      using Stack.prems(4,5) s(4) by (simp_all add: t list_all_iff)
    then show ?thesis using s by (intro Stack.IH)
  qed
  then have "map (\<lambda>(x, y). tensor_zip f x y) (zip xs ys) = map fst (zip xs ys)"
    by (intro map_cong) auto
  also have "\<dots> = xs" using len by simp
  finally show ?case by (simp add: t)
qed

lemma tensor_zip_right:
  assumes "\<forall>x y. P x \<and> Q y \<longrightarrow> f x y = y"
  shows "regular l \<Longrightarrow> regular t \<Longrightarrow> shape l = shape t \<Longrightarrow>
         tensor_all P l \<Longrightarrow> tensor_all Q t \<Longrightarrow> tensor_zip f l t = t"
proof (induction l arbitrary: t)
  case (Scalar x)
  then show ?case using assms by (cases t rule: shape.cases) simp_all
next
  case (Stack xs)
  then obtain ys where t: "t = Stack ys"
    by (cases t; cases xs) simp_all
  have len: "length xs = length ys"
    using Stack.prems(3) unfolding t by (rule shape_Stack_length)
  have "tensor_zip f x y = y" if "(x, y) \<in> set (zip xs ys)" for x y
  proof -
    note s = zip_slices [OF Stack.prems(1) Stack.prems(2) [unfolded t] Stack.prems(3) [unfolded t]
        that]
    have "y \<in> set ys" using that by (rule set_zip_rightD)
    then have "tensor_all P x" "tensor_all Q y"
      using Stack.prems(4,5) s(4) by (simp_all add: t list_all_iff)
    then show ?thesis using s by (intro Stack.IH)
  qed
  then have "map (\<lambda>(x, y). tensor_zip f x y) (zip xs ys) = map snd (zip xs ys)"
    by (intro map_cong) auto
  also have "\<dots> = ys" using len by simp
  finally show ?case by (simp add: t)
qed

lemma polyak_same_shape:
  assumes "regular l" and "regular t" and "shape l = shape t"
  shows "polyak tau l t =
     Inr (tensor_zip (\<lambda>x y. fl_add float32 (fl_mul float32 (float32 tau) x)
                               (fl_mul float32 (to_float32 (float64 (1 - tau))) y)) l t)"
proof -
  let ?a = "fl_mul float32 (float32 tau)"
  let ?b = "fl_mul float32 (to_float32 (float64 (1 - tau)))"
  have r: "regular (tensor_map ?a l)" "regular (tensor_map ?b t)"
    using assms by (simp_all add: regular_tensor_map)
  have s: "shape (tensor_map ?a l) = shape (tensor_map ?b t)"
    using assms by (simp add: shape_tensor_map)
  have c: "combine (fl_add float32) (tensor_map ?a l) (tensor_map ?b t)
      = Inr (tensor_zip (fl_add float32) (tensor_map ?a l) (tensor_map ?b t))"
    using r s by (rule combine_same_shape)
  have sh: "shape (tensor_zip (fl_add float32) (tensor_map ?a l) (tensor_map ?b t)) = shape t"
    using shape_tensor_zip [OF r s] by (simp add: shape_tensor_map)
  have z: "tensor_zip (fl_add float32) (tensor_map ?a l) (tensor_map ?b t)
      = tensor_zip (\<lambda>x y. fl_add float32 (?a x) (?b y)) l t"
    using assms by (rule tensor_zip_map)
  have sh': "shape (tensor_zip (\<lambda>x y. fl_add float32 (?a x) (?b y)) l t) = shape t"
    using sh by (simp only: z)
  show ?thesis
    by (simp only: polyak_def c sum.case z sh' if_True refl)
qed

lemma soft_update_params_same_shape:
  "list_all2 (\<lambda>l t. regular l \<and> regular t \<and> shape l = shape t) ls ts \<Longrightarrow>
   soft_update_params tau ls ts =
     Inr (map2 (tensor_zip (\<lambda>x y. fl_add float32 (fl_mul float32 (float32 tau) x)
                               (fl_mul float32 (to_float32 (float64 (1 - tau))) y))) ls ts)"
  by (induction ls ts rule: list_all2_induct) (simp_all add: polyak_same_shape)

lemma map2_tensor_zip_left:
  assumes "\<forall>x y. P x \<and> Q y \<longrightarrow> f x y = x"
  shows "list_all2 (\<lambda>l t. regular l \<and> regular t \<and> shape l = shape t) ls ts \<Longrightarrow>
         list_all (tensor_all P) ls \<Longrightarrow> list_all (tensor_all Q) ts \<Longrightarrow>
         map2 (tensor_zip f) ls ts = ls"
  by (induction ls ts rule: list_all2_induct) (simp_all add: tensor_zip_left [OF assms])

lemma map2_tensor_zip_right:
  assumes "\<forall>x y. P x \<and> Q y \<longrightarrow> f x y = y"
  shows "list_all2 (\<lambda>l t. regular l \<and> regular t \<and> shape l = shape t) ls ts \<Longrightarrow>
         list_all (tensor_all P) ls \<Longrightarrow> list_all (tensor_all Q) ts \<Longrightarrow>
         map2 (tensor_zip f) ls ts = ts"
  by (induction ls ts rule: list_all2_induct) (simp_all add: tensor_zip_right [OF assms])

text \<open>
  C5, as stated, fails for a target parameter that is not finite: with \<open>tau = 1\<close> the
  product of \<open>1 - tau = 0\<close> and an infinite target element is NaN, and so is the updated
  element, where the local element is 1.
\<close>

theorem soft_update_counterexample:
  "soft_update netL netInf 1 =
     Inr (netInf\<lparr>parameters := [Stack [Scalar NaN, Scalar (Fin 2)], Stack [Scalar (Fin 3)]]\<rparr>)"
  by (simp add: soft_update_def polyak_def netL_def netInf_def stack_def to_float32_def
      float32_one float32_zero float64_zero float32_examples)

text \<open>
  C5, amended. For two networks whose parameter tensors pair up with equal shapes,
  \<open>soft_update\<close> replaces every element of every target parameter by
  \<open>tau * local + (1 - tau) * target\<close>, computed in \<^verbatim>\<open>float32\<close> arithmetic. With \<open>tau = 1\<close>
  the target parameters become the local ones provided the earlier target elements are
  finite; with \<open>tau = 0\<close> the target model is unchanged provided the local elements are
  finite.
\<close>

theorem soft_update_polyak:
  assumes "list_all2 (\<lambda>l t. regular l \<and> regular t \<and> shape l = shape t)
             (parameters local_model) (parameters target_model)"
  shows "soft_update local_model target_model tau =
           Inr (target_model\<lparr>parameters :=
                  map2 (tensor_zip (\<lambda>x y. fl_add float32 (fl_mul float32 (float32 tau) x)
                                     (fl_mul float32 (to_float32 (float64 (1 - tau))) y)))
                    (parameters local_model) (parameters target_model)\<rparr>)
       \<and> (list_all (tensor_all is_float32) (parameters local_model)
            \<and> list_all (tensor_all is_finite) (parameters target_model) \<longrightarrow>
          soft_update local_model target_model 1 =
            Inr (target_model\<lparr>parameters := parameters local_model\<rparr>))
       \<and> (list_all (tensor_all is_finite) (parameters local_model)
            \<and> list_all (tensor_all is_float32) (parameters target_model) \<longrightarrow>
          soft_update local_model target_model 0 = Inr target_model)"
proof (intro conjI impI)
  show "soft_update local_model target_model tau =
           Inr (target_model\<lparr>parameters :=
                  map2 (tensor_zip (\<lambda>x y. fl_add float32 (fl_mul float32 (float32 tau) x)
                                     (fl_mul float32 (to_float32 (float64 (1 - tau))) y)))
                    (parameters local_model) (parameters target_model)\<rparr>)"
    by (simp add: soft_update_def soft_update_params_same_shape [OF assms])
next
  assume a: "list_all (tensor_all is_float32) (parameters local_model)
            \<and> list_all (tensor_all is_finite) (parameters target_model)"
  have f: "\<forall>x y. is_float32 x \<and> is_finite y \<longrightarrow>
      fl_add float32 (fl_mul float32 (float32 1) x)
        (fl_mul float32 (to_float32 (float64 (1 - 1))) y) = x"
    by (simp add: float32_one float64_zero float32_zero to_float32_def fl_one_mul fl_zero_mul
        fl_add_zero)
  have "map2 (tensor_zip (\<lambda>x y. fl_add float32 (fl_mul float32 (float32 1) x)
                                     (fl_mul float32 (to_float32 (float64 (1 - 1))) y)))
          (parameters local_model) (parameters target_model) = parameters local_model"
    using assms a by (intro map2_tensor_zip_left [OF f]) simp_all
  then show "soft_update local_model target_model 1 =
            Inr (target_model\<lparr>parameters := parameters local_model\<rparr>)"
    by (simp only: soft_update_def soft_update_params_same_shape [OF assms] sum.case)
next
  assume a: "list_all (tensor_all is_finite) (parameters local_model)
            \<and> list_all (tensor_all is_float32) (parameters target_model)"
  have f: "\<forall>x y. is_finite x \<and> is_float32 y \<longrightarrow>
      fl_add float32 (fl_mul float32 (float32 0) x)
        (fl_mul float32 (to_float32 (float64 (1 - 0))) y) = y"
    by (simp add: float32_one float64_one float32_zero to_float32_def fl_one_mul fl_zero_mul
        fl_zero_add)
  have "map2 (tensor_zip (\<lambda>x y. fl_add float32 (fl_mul float32 (float32 0) x)
                                     (fl_mul float32 (to_float32 (float64 (1 - 0))) y)))
          (parameters local_model) (parameters target_model) = parameters target_model"
    using assms a by (intro map2_tensor_zip_right [OF f]) simp_all
  then have "soft_update local_model target_model 0 =
            Inr (target_model\<lparr>parameters := parameters target_model\<rparr>)"
    by (simp only: soft_update_def soft_update_params_same_shape [OF assms] sum.case)
  then show "soft_update local_model target_model 0 = Inr target_model"
    by simp
qed

theorem soft_update_polyak_witness:
  "list_all2 (\<lambda>l t. regular l \<and> regular t \<and> shape l = shape t) (parameters netL) (parameters netT)
   \<and> list_all (tensor_all is_float32) (parameters netL)
   \<and> list_all (tensor_all is_finite) (parameters netT)
   \<and> list_all (tensor_all is_finite) (parameters netL)
   \<and> list_all (tensor_all is_float32) (parameters netT)
   \<and> soft_update netL netT (1 / 2) =
       Inr (netT\<lparr>parameters := [Stack [Scalar (Fin 3), Scalar (Fin 4)], Stack [Scalar (Fin 5)]]\<rparr>)
   \<and> soft_update netL netT 1 = Inr (netT\<lparr>parameters := parameters netL\<rparr>)
   \<and> soft_update netL netT 0 = Inr netT"
proof -
  have s: "list_all2 (\<lambda>l t. regular l \<and> regular t \<and> shape l = shape t)
             (parameters netL) (parameters netT)"
    by (simp add: netL_def netT_def)
  have p: "list_all (tensor_all is_float32) (parameters netL)"
    "list_all (tensor_all is_finite) (parameters netT)"
    "list_all (tensor_all is_finite) (parameters netL)"
    "list_all (tensor_all is_float32) (parameters netT)"
    by (simp_all add: netL_def netT_def is_float32_def to_float32_def is_finite_def
        float32_one float32_examples)
  have h: "soft_update netL netT (1 / 2) =
       Inr (netT\<lparr>parameters := [Stack [Scalar (Fin 3), Scalar (Fin 4)], Stack [Scalar (Fin 5)]]\<rparr>)"
    using soft_update_polyak [OF s, of "1 / 2", THEN conjunct1]
    by (simp add: netL_def netT_def to_float32_def float64_half float32_examples float32_one)
  have o: "soft_update netL netT 1 = Inr (netT\<lparr>parameters := parameters netL\<rparr>)"
    using soft_update_polyak [OF s, of 0, THEN conjunct2, THEN conjunct1] p by blast
  have z: "soft_update netL netT 0 = Inr netT"
    using soft_update_polyak [OF s, of 0, THEN conjunct2, THEN conjunct2] p by blast
  show ?thesis
    by (intro conjI s p h o z)
qed

section \<open>The Double DQN target\<close>









lemma first_max_1_5: "first_max [Fin 1, Fin 5] = 1"
  by (simp add: first_max_def fl_maximum_def)




section \<open>The update schedule\<close>

lemma step_record_only:
  assumes "\<not> ((t_step ag + 1) mod UPDATE_EVERY = 0
              \<and> BATCH_SIZE < len (add (replay ag) s a r s' d))"
  shows "step learn ag s a r s' d drawn = Inr (record_only ag (s, a, r, s', d, drawn))"
  using assms by (auto simp: step_def record_only_def Let_def)

lemma step_learns:
  assumes "(t_step ag + 1) mod UPDATE_EVERY = 0"
    and "BATCH_SIZE < len (add (replay ag) s a r s' d)"
  shows "step learn ag s a r s' d drawn =
     (case sample (add (replay ag) s a r s' d) drawn of
        Inl e \<Rightarrow> Inl e
      | Inr experiences \<Rightarrow> learn experiences GAMMA (record_only ag (s, a, r, s', d, drawn)))"
  using assms by (simp add: step_def record_only_def Let_def split: sum.splits)

lemma len_add: "len (add rb s a r s' d) \<le> len rb + 1"
  by (simp add: len_def add_def deque_append_def Let_def)

lemma t_step_record_only: "t_step (record_only ag c) = (t_step ag + 1) mod UPDATE_EVERY"
  by (cases c) (simp add: record_only_def)

lemma replay_record_only:
  "replay (record_only ag (s, a, r, s', d, drawn)) = add (replay ag) s a r s' d"
  by (simp add: record_only_def)

lemma run_small_store:
  "len (replay ag) + int (length cs) \<le> BATCH_SIZE \<Longrightarrow>
   run learn ag cs = Inr (foldl record_only ag cs)"
proof (induction cs arbitrary: ag)
  case Nil
  then show ?case by simp
next
  case (Cons c cs)
  obtain s a r s' d drawn where c: "c = (s, a, r, s', d, drawn)"
    by (cases c) auto
  have l: "len (add (replay ag) s a r s' d) \<le> len (replay ag) + 1"
    by (rule len_add)
  then have "\<not> ((t_step ag + 1) mod UPDATE_EVERY = 0
              \<and> BATCH_SIZE < len (add (replay ag) s a r s' d))"
    using Cons.prems by simp
  then have st: "step learn ag s a r s' d drawn = Inr (record_only ag c)"
    unfolding c by (rule step_record_only)
  have "len (replay (record_only ag c)) + int (length cs) \<le> BATCH_SIZE"
    using l Cons.prems by (simp add: c replay_record_only)
  then have "run learn (record_only ag c) cs = Inr (foldl record_only (record_only ag c) cs)"
    by (rule Cons.IH)
  then show ?case
    by (simp add: c st [unfolded c])
qed

lemma run_before_wrap:
  "0 \<le> t_step ag \<Longrightarrow> t_step ag + int (length cs) < UPDATE_EVERY \<Longrightarrow>
   run learn ag cs = Inr (foldl record_only ag cs)"
proof (induction cs arbitrary: ag)
  case Nil
  then show ?case by simp
next
  case (Cons c cs)
  obtain s a r s' d drawn where c: "c = (s, a, r, s', d, drawn)"
    by (cases c) auto
  have m: "(t_step ag + 1) mod UPDATE_EVERY = t_step ag + 1"
    using Cons.prems by simp
  then have "\<not> ((t_step ag + 1) mod UPDATE_EVERY = 0
              \<and> BATCH_SIZE < len (add (replay ag) s a r s' d))"
    using Cons.prems by simp
  then have st: "step learn ag s a r s' d drawn = Inr (record_only ag c)"
    unfolding c by (rule step_record_only)
  have "0 \<le> t_step (record_only ag c)"
    "t_step (record_only ag c) + int (length cs) < UPDATE_EVERY"
    using Cons.prems by (simp_all add: t_step_record_only m)
  then have "run learn (record_only ag c) cs = Inr (foldl record_only (record_only ag c) cs)"
    by (rule Cons.IH)
  then show ?case
    by (simp add: c st [unfolded c])
qed

text \<open>
  C6. The counter of a constructed agent starts at 0 and every call of \<open>step\<close> sets it to
  its successor modulo 4. A call of \<open>step\<close> runs \<open>learn\<close> on a sample when the counter
  wraps to 0 and the store, with the new transition in it, holds more than 32 transitions;
  in every other case it records the transition and does nothing else, whatever \<open>learn\<close>
  is. So no sequence of fewer than four calls on a constructed agent reaches \<open>learn\<close>, and
  no sequence of calls does while the store holds at most 32 transitions.
\<close>

theorem scheduling_gating:
  assumes init: "Agent_init new_network a h seed = Inr ag0"
  shows "t_step ag0 = 0
     \<and> (\<forall>ag c. t_step (record_only ag c) = (t_step ag + 1) mod 4)
     \<and> (\<forall>learn ag s a r s' d drawn.
          \<not> ((t_step ag + 1) mod 4 = 0 \<and> 32 < len (add (replay ag) s a r s' d)) \<longrightarrow>
          step learn ag s a r s' d drawn = Inr (record_only ag (s, a, r, s', d, drawn)))
     \<and> (\<forall>learn ag s a r s' d drawn.
          (t_step ag + 1) mod 4 = 0 \<and> 32 < len (add (replay ag) s a r s' d) \<longrightarrow>
          step learn ag s a r s' d drawn =
            (case sample (add (replay ag) s a r s' d) drawn of
               Inl e \<Rightarrow> Inl e
             | Inr experiences \<Rightarrow>
                 learn experiences GAMMA (record_only ag (s, a, r, s', d, drawn))))
     \<and> (\<forall>learn cs. length cs < 4 \<longrightarrow> run learn ag0 cs = Inr (foldl record_only ag0 cs))
     \<and> (\<forall>learn ag cs. len (replay ag) + int (length cs) \<le> 32 \<longrightarrow>
          run learn ag cs = Inr (foldl record_only ag cs))"
proof -
  have t0: "t_step ag0 = 0"
    using init by (auto simp: Agent_init_def split: sum.splits)
  have u: "UPDATE_EVERY = 4" and b: "BATCH_SIZE = 32"
    by (simp_all add: UPDATE_EVERY_def BATCH_SIZE_def)
  show ?thesis
  proof (intro conjI allI impI)
    show "t_step ag0 = 0" by (rule t0)
  next
    fix ag :: Agent and c :: call
    show "t_step (record_only ag c) = (t_step ag + 1) mod 4"
      using t_step_record_only [of ag c] by (simp add: u)
  next
    fix learn and ag :: Agent and s a r s' d drawn
    assume "\<not> ((t_step ag + 1) mod 4 = 0 \<and> 32 < len (add (replay ag) s a r s' d))"
    then show "step learn ag s a r s' d drawn = Inr (record_only ag (s, a, r, s', d, drawn))"
      by (intro step_record_only) (simp add: u b)
  next
    fix learn and ag :: Agent and s a r s' d drawn
    assume "(t_step ag + 1) mod 4 = 0 \<and> 32 < len (add (replay ag) s a r s' d)"
    then show "step learn ag s a r s' d drawn =
            (case sample (add (replay ag) s a r s' d) drawn of
               Inl e \<Rightarrow> Inl e
             | Inr experiences \<Rightarrow>
                 learn experiences GAMMA (record_only ag (s, a, r, s', d, drawn)))"
      by (intro step_learns) (simp_all add: u b)
  next
    fix learn and cs :: "call list"
    assume "length cs < 4"
    then show "run learn ag0 cs = Inr (foldl record_only ag0 cs)"
      by (intro run_before_wrap) (simp_all add: t0 u)
  next
    fix learn and ag :: Agent and cs :: "call list"
    assume "len (replay ag) + int (length cs) \<le> 32"
    then show "run learn ag cs = Inr (foldl record_only ag cs)"
      by (intro run_small_store) (simp add: b)
  qed
qed

text \<open>Three calls on a constructed agent, with a \<open>learn\<close> that fails whenever it is
  called.\<close>

theorem scheduling_gating_witness:
  "Agent_init exNew 2 2 42 = Inr exAgent
   \<and> run failing_learn exAgent [callA, callB, callC] =
       Inr (exAgent\<lparr>replay := (replay exAgent)\<lparr>memory := [trA, trB, trC]\<rparr>, t_step := 3\<rparr>)"
proof -
  have i: "Agent_init exNew 2 2 42 = Inr exAgent"
    by (simp add: Agent_init_def ReplayBuffer_init_def exNew_def exAgent_def BUFFER_SIZE_def
        BATCH_SIZE_def)
  have "run failing_learn exAgent [callA, callB, callC]
        = Inr (foldl record_only exAgent [callA, callB, callC])"
    using scheduling_gating [OF i] by simp
  then show ?thesis
    using i
    by (simp add: record_only_def callA_def callB_def callC_def exAgent_def add_def
        deque_append_def UPDATE_EVERY_def trA_def trB_def trC_def)
qed


section \<open>Action selection\<close>

lemma random_random_range: "0 \<le> random_random raw \<and> random_random raw < 1"
proof -
  have "raw mod 2 ^ 53 < 2 ^ 53" by simp
  then have "real (raw mod 2 ^ 53) < 2 ^ 53"
    by (metis of_nat_less_iff of_nat_numeral of_nat_power)
  then show ?thesis
    by (simp add: random_random_def)
qed

lemma act_greedy_branch:
  "eps < random_random raw_u \<Longrightarrow>
   act forward ag s eps raw_u raw_c = greedy_action forward ag s"
  by (simp add: act_def)

lemma act_random_branch:
  "random_random raw_u \<le> eps \<Longrightarrow> act forward ag s eps raw_u raw_c = random_action ag raw_c"
  by (simp add: act_def)

lemma act_eps1_random_branch: "act forward ag s 1 raw_u raw_c = random_action ag raw_c"
  using random_random_range [of raw_u] by (intro act_random_branch) simp

lemma random_action_range:
  assumes "0 < action_size ag"
  shows "random_action ag raw_c = Inr (int (raw_c mod nat (action_size ag)), ag)"
    and "int (raw_c mod nat (action_size ag)) < action_size ag"
proof -
  have l: "length [0 .. action_size ag - 1] = nat (action_size ag)"
    using assms by simp
  have "raw_c mod nat (action_size ag) < nat (action_size ag)"
    using assms by simp
  then show "int (raw_c mod nat (action_size ag)) < action_size ag"
    by linarith
  then have "[0 .. action_size ag - 1] ! (raw_c mod nat (action_size ag))
      = int (raw_c mod nat (action_size ag))"
    by simp
  then show "random_action ag raw_c = Inr (int (raw_c mod nat (action_size ag)), ag)"
    using assms by (simp add: random_action_def random_choice_def)
qed

lemma greedy_action_example: "greedy_action exForward exAgent frameA = Inr (1, exAgent)"
  by (simp add: greedy_action_def np_argmax_def exForward_def first_max_1_5 exAgent_def
      netL_def)

text \<open>
  C8. The claim fails at one outcome of the random source. \<^verbatim>\<open>random.random()\<close> can return
  0.0; the test \<^verbatim>\<open>random.random() > eps\<close> is then false for \<open>eps = 0\<close>, and \<open>act\<close> takes the
  random branch: it returns the action chosen by \<^verbatim>\<open>random.choice\<close>, here 0, where the
  greedy branch returns 1, the index of the largest action value.
\<close>

theorem act_eps0_failing_input:
  "random_random 0 = 0
   \<and> act exForward exAgent frameA 0 0 0 = random_action exAgent 0
   \<and> act exForward exAgent frameA 0 0 0 = Inr (0, exAgent)
   \<and> greedy_action exForward exAgent frameA = Inr (1, exAgent)"
proof -
  have u: "random_random 0 = 0"
    by (simp add: random_random_def)
  have r: "random_action exAgent 0 = Inr (0, exAgent)"
    by (simp add: random_action_def random_choice_def exAgent_def upto_small)
  have a: "act exForward exAgent frameA 0 0 0 = random_action exAgent 0"
    by (simp add: act_def u)
  show ?thesis
    using u a r greedy_action_example by simp
qed

text \<open>
  C9, as stated, fails for a local network that is in evaluation mode when \<open>act\<close> is
  called, as it is after the caller's \<^verbatim>\<open>agent.qnetwork_local.eval()\<close>: the greedy branch
  ends with \<^verbatim>\<open>train()\<close>, so the flag is set afterwards and not put back to what it was.
\<close>

theorem act_training_flag_counterexample:
  "training (qnetwork_local exAgentEval) = False
   \<and> 0 < random_random 1
   \<and> act exForward exAgentEval frameA 0 1 0 = Inr (1, exAgent)
   \<and> training (qnetwork_local exAgent) = True"
proof -
  have u: "0 < random_random 1"
    by (simp add: random_random_def)
  have "greedy_action exForward exAgentEval frameA = Inr (1, exAgent)"
    by (simp add: greedy_action_def np_argmax_def exForward_def first_max_1_5 exAgentEval_def
        exAgent_def netL_def)
  then have "act exForward exAgentEval frameA 0 1 0 = Inr (1, exAgent)"
    using u by (simp add: act_def)
  then show ?thesis
    using u by (simp add: exAgentEval_def exAgent_def netL_def)
qed

text \<open>
  C9, amended. Let a call of \<open>act\<close> take the greedy branch, and let the forward pass on
  the local network, run in evaluation mode with gradient recording off, return the
  action values \<open>vals\<close>, not empty, and leave the network as \<open>net\<close>. Then \<open>act\<close> returns
  the index of the largest action value, and after it:
  \<^item> the local network is in training mode, whatever its mode was before the call, so the
    flag has the value it had before the call exactly when the network was in training
    mode before the call;
  \<^item> the local network is \<open>net\<close> with the flag set and nothing else of the agent is changed:
    \<open>act\<close> itself updates no parameter, and the parameters are those before the call
    when the forward pass has left them as they were;
  \<^item> the forward pass is used only in evaluation mode and with gradient recording off:
    another forward pass that agrees with this one there gives the same result.
\<close>

theorem act_sets_training_mode:
  assumes greedy: "eps < random_random raw_u"
    and fw: "forward False ((qnetwork_local ag)\<lparr>training := False\<rparr>) [s] = (vals, net)"
    and ne: "concat vals \<noteq> []"
  shows "\<exists>ag'. act forward ag s eps raw_u raw_c = Inr (int (first_max (concat vals)), ag')
     \<and> training (qnetwork_local ag') = True
     \<and> (training (qnetwork_local ag') = training (qnetwork_local ag)
          \<longleftrightarrow> training (qnetwork_local ag) = True)
     \<and> qnetwork_local ag' = net\<lparr>training := True\<rparr>
     \<and> ag' = ag\<lparr>qnetwork_local := qnetwork_local ag'\<rparr>
     \<and> (parameters net = parameters (qnetwork_local ag) \<longrightarrow>
          parameters (qnetwork_local ag') = parameters (qnetwork_local ag))
     \<and> (\<forall>forward'.
          forward' False ((qnetwork_local ag)\<lparr>training := False\<rparr>) [s] = (vals, net) \<longrightarrow>
          act forward' ag s eps raw_u raw_c = act forward ag s eps raw_u raw_c)"
proof -
  let ?ag' = "ag\<lparr>qnetwork_local := net\<lparr>training := True\<rparr>\<rparr>"
  have g: "greedy_action f ag s = Inr (int (first_max (concat vals)), ?ag')"
    if "f False ((qnetwork_local ag)\<lparr>training := False\<rparr>) [s] = (vals, net)" for f
    using that ne by (simp add: greedy_action_def np_argmax_def)
  have a: "act f ag s eps raw_u raw_c = Inr (int (first_max (concat vals)), ?ag')"
    if "f False ((qnetwork_local ag)\<lparr>training := False\<rparr>) [s] = (vals, net)" for f
    using g [of f, OF that] greedy by (simp add: act_greedy_branch)
  have 1: "act forward ag s eps raw_u raw_c = Inr (int (first_max (concat vals)), ?ag')"
    using a [of forward, OF fw] .
  have 2: "training (qnetwork_local ?ag') = True"
    by simp
  have 3: "training (qnetwork_local ?ag') = training (qnetwork_local ag)
          \<longleftrightarrow> training (qnetwork_local ag) = True"
    by auto
  have 4: "qnetwork_local ?ag' = net\<lparr>training := True\<rparr>"
    by simp
  have 5: "?ag' = ag\<lparr>qnetwork_local := qnetwork_local ?ag'\<rparr>"
    by simp
  have 6: "parameters net = parameters (qnetwork_local ag) \<longrightarrow>
          parameters (qnetwork_local ?ag') = parameters (qnetwork_local ag)"
    by simp
  have 7: "\<forall>forward'.
          forward' False ((qnetwork_local ag)\<lparr>training := False\<rparr>) [s] = (vals, net) \<longrightarrow>
          act forward' ag s eps raw_u raw_c = act forward ag s eps raw_u raw_c"
    using a 1 by simp
  show ?thesis
    by (rule exI [of _ ?ag']) (intro conjI 1 2 3 4 5 6 7)
qed

theorem act_sets_training_mode_witness:
  "0 < random_random 1
   \<and> exForward False ((qnetwork_local exAgentEval)\<lparr>training := False\<rparr>) [frameA]
       = ([[Fin 1, Fin 5]], netL\<lparr>training := False\<rparr>)
   \<and> concat [[Fin 1, Fin 5]] \<noteq> []
   \<and> (\<exists>ag'. act exForward exAgentEval frameA 0 1 0
               = Inr (int (first_max (concat [[Fin 1, Fin 5]])), ag')
     \<and> training (qnetwork_local ag') = True
     \<and> (training (qnetwork_local ag') = training (qnetwork_local exAgentEval)
          \<longleftrightarrow> training (qnetwork_local exAgentEval) = True)
     \<and> qnetwork_local ag' = netL\<lparr>training := False, training := True\<rparr>
     \<and> ag' = exAgentEval\<lparr>qnetwork_local := qnetwork_local ag'\<rparr>
     \<and> (parameters (netL\<lparr>training := False\<rparr>) = parameters (qnetwork_local exAgentEval) \<longrightarrow>
          parameters (qnetwork_local ag') = parameters (qnetwork_local exAgentEval))
     \<and> (\<forall>forward'.
          forward' False ((qnetwork_local exAgentEval)\<lparr>training := False\<rparr>) [frameA]
            = ([[Fin 1, Fin 5]], netL\<lparr>training := False\<rparr>) \<longrightarrow>
          act forward' exAgentEval frameA 0 1 0 = act exForward exAgentEval frameA 0 1 0))
   \<and> act exForward exAgentEval frameA 0 1 0 = Inr (1, exAgent)
   \<and> act exForward exAgent frameA 0 1 0 = Inr (1, exAgent)"
proof -
  have u: "0 < random_random 1"
    by (simp add: random_random_def)
  have fw: "exForward False ((qnetwork_local exAgentEval)\<lparr>training := False\<rparr>) [frameA]
       = ([[Fin 1, Fin 5]], netL\<lparr>training := False\<rparr>)"
    by (simp add: exForward_def exAgentEval_def exAgent_def)
  have ne: "concat [[Fin 1, Fin 5]] \<noteq> []"
    by simp
  have e: "act exForward exAgentEval frameA 0 1 0 = Inr (1, exAgent)"
    using u
    by (simp add: act_def greedy_action_def np_argmax_def exForward_def first_max_1_5
        exAgentEval_def exAgent_def netL_def)
  have t: "act exForward exAgent frameA 0 1 0 = Inr (1, exAgent)"
    using u greedy_action_example by (simp add: act_def)
  show ?thesis
    by (intro conjI u fw ne e t
        act_sets_training_mode [where forward = exForward and ag = exAgentEval and raw_c = 0,
          OF u fw ne])
qed

end
